theory Spec2Isabelle
  imports Complex_Main "HOL-Library.AList"
begin

section \<open>Errors and Python values\<close>

text \<open>
  The exceptions that the functions of \<^verbatim>\<open>scripts/utils.py\<close> can raise are those of the
  Python runtime and of numpy: \<open>IndexError\<close> (indexing an empty tuple or an empty list) and
  \<open>ValueError\<close> (\<^verbatim>\<open>argmin\<close> of an empty array, \<^verbatim>\<open>Generator.choice\<close> of more items
  than the population holds). The last four constructors are the error kinds that the
  specification names in its section 7; no statement of the module raises them.
\<close>

datatype error =
    IndexError
  | ValueError
  | EmptyOverlap
  | InsufficientPoints
  | FittingFailed
  | OptimizerNonconvergence

text \<open>
  The values that reach \<^verbatim>\<open>parse_segment\<close>: tuples, dicts (insertion ordered, keyed by
  strings) and anything else, of which a time slice, a string, a list and \<open>None\<close> are kept
  apart.
\<close>

datatype pyval =
    PNone
  | PStr string
  | PSlice int int
  | PList "pyval list"
  | PTuple "pyval list"
  | PDict "(string \<times> pyval) list"

text \<open>Sequencing of two fallible calls: the first exception raised is the outcome.\<close>

definition bind_err :: "error + 'a \<Rightarrow> ('a \<Rightarrow> error + 'b) \<Rightarrow> error + 'b" where
  "bind_err r f = (case r of Inl e \<Rightarrow> Inl e | Inr v \<Rightarrow> f v)"

section \<open>Segments\<close>

text \<open>
  \<^verbatim>\<open>parse_segment\<close> (lines 305 to 320). A tuple is read by position; \<^verbatim>\<open>segment[0]\<close> is
  read without a length test, the later positions behind \<^verbatim>\<open>len(segment) >= k\<close>. A dict
  is returned as it is (the early \<^verbatim>\<open>return segment\<close>). \<^verbatim>\<open>seg[key] = v\<close> on a dict is
  \<^const>\<open>AList.update\<close>: the key is overwritten where it stands, or appended.
\<close>

definition parse_segment :: "pyval \<Rightarrow> error + pyval" where
  "parse_segment segment =
     (case segment of
        PTuple xs \<Rightarrow>
          (case xs of
             [] \<Rightarrow> Inl IndexError
           | x0 # _ \<Rightarrow>
               (let seg = [(''slice'', x0)];
                    seg = (if 2 \<le> length xs then AList.update ''kinds'' (xs ! 1) seg else seg);
                    seg = (if 3 \<le> length xs then AList.update ''name'' (xs ! 2) seg else seg);
                    seg = (if 4 \<le> length xs then AList.update ''remarks'' (xs ! 3) seg else seg)
                in Inr (PDict seg)))
      | PDict d \<Rightarrow> Inr segment
      | _ \<Rightarrow> Inr (PDict [(''slice'', segment)]))"

text \<open>The positional field names of a segment, and the tests for a dict and a tuple.\<close>

definition segment_fields :: "string list" where
  "segment_fields = [''slice'', ''kinds'', ''name'', ''remarks'']"

fun is_dict :: "pyval \<Rightarrow> bool" where
  "is_dict (PDict d) = True"
| "is_dict _ = False"

fun is_tuple :: "pyval \<Rightarrow> bool" where
  "is_tuple (PTuple xs) = True"
| "is_tuple _ = False"

section \<open>Floating-point values and the external numerical capabilities\<close>

text \<open>
  A float is a real number or \<open>NaN\<close>. The coordinates of the input tracks and points are
  taken to be finite and are reals; \<open>NaN\<close> arises inside the module only, where numpy or
  xarray produce it from finite data: the mean of an empty array, an interpolation outside
  the coordinate range. Rounding and the infinities are not modelled.
\<close>

datatype pyfloat = Fin real | NaN

fun is_fin :: "pyfloat \<Rightarrow> bool" where
  "is_fin (Fin x) = True"
| "is_fin NaN = False"

text \<open>
  The geodesic inverse solver \<^verbatim>\<open>geod.inv(lons1, lats1, lons2, lats2)\<close> of
  \<^verbatim>\<open>orcestra.flightplan\<close> is an external capability: a parameter \<open>gd\<close> that gives the
  distance in metres between two (lon, lat) pairs. \<open>geod_inv\<close> lifts it to floats; a \<open>NaN\<close>
  coordinate gives a \<open>NaN\<close> distance.
\<close>

type_synonym geod = "real \<times> real \<Rightarrow> real \<times> real \<Rightarrow> real"

fun geod_inv :: "geod \<Rightarrow> pyfloat \<times> pyfloat \<Rightarrow> pyfloat \<times> pyfloat \<Rightarrow> pyfloat" where
  "geod_inv gd (Fin lon1, Fin lat1) (Fin lon2, Fin lat2) = Fin (gd (lon1, lat1) (lon2, lat2))"
| "geod_inv gd _ _ = NaN"

text \<open>
  \<^verbatim>\<open>scipy.optimize.minimize(cost, x0, method="Nelder-Mead")\<close> is external as well: a
  parameter from the cost function and the start to an \<^verbatim>\<open>OptimizeResult\<close>, of which the
  module reads \<^verbatim>\<open>res.x\<close> only; \<^verbatim>\<open>res.success\<close> is the convergence flag.
\<close>

record 'x optres =
  opt_x :: 'x
  success :: bool

type_synonym minimizer1 = "(real \<Rightarrow> pyfloat) \<Rightarrow> real \<Rightarrow> real optres"

type_synonym minimizer2 =
  "(pyfloat \<times> pyfloat \<Rightarrow> pyfloat) \<Rightarrow> pyfloat \<times> pyfloat \<Rightarrow> (pyfloat \<times> pyfloat) optres"

text \<open>
  \<^verbatim>\<open>np.argmin\<close>: the index of the first least element, by the scan numpy runs (an element
  replaces the running minimum unless it is \<open>>=\<close> it; a \<open>NaN\<close> minimum ends the scan); an
  empty array raises \<open>ValueError\<close>.
\<close>

fun f_ge :: "pyfloat \<Rightarrow> pyfloat \<Rightarrow> bool" where
  "f_ge (Fin x) (Fin y) = (y \<le> x)"
| "f_ge _ _ = False"

fun argmin_loop :: "pyfloat list \<Rightarrow> nat \<Rightarrow> pyfloat \<Rightarrow> nat \<Rightarrow> nat" where
  "argmin_loop [] i mp min_ind = min_ind"
| "argmin_loop (x # xs) i mp min_ind =
     (if mp = NaN then min_ind
      else if f_ge x mp then argmin_loop xs (Suc i) mp min_ind
      else argmin_loop xs (Suc i) x i)"

definition np_argmin :: "pyfloat list \<Rightarrow> error + nat" where
  "np_argmin xs = (case xs of [] \<Rightarrow> Inl ValueError | x # r \<Rightarrow> Inr (argmin_loop r 1 x 0))"

text \<open>\<^verbatim>\<open>np.mean\<close> and \<^verbatim>\<open>np.std\<close> (population standard deviation); \<open>NaN\<close> on an empty array.\<close>

fun fin_list :: "pyfloat list \<Rightarrow> real list option" where
  "fin_list [] = Some []"
| "fin_list (Fin x # xs) = map_option ((#) x) (fin_list xs)"
| "fin_list (NaN # xs) = None"

definition np_mean :: "pyfloat list \<Rightarrow> pyfloat" where
  "np_mean ds =
     (case fin_list ds of
        None \<Rightarrow> NaN
      | Some xs \<Rightarrow> if xs = [] then NaN else Fin (sum_list xs / real (length xs)))"

definition np_std :: "pyfloat list \<Rightarrow> pyfloat" where
  "np_std ds =
     (case fin_list ds of
        None \<Rightarrow> NaN
      | Some xs \<Rightarrow>
          if xs = [] then NaN
          else (let m = sum_list xs / real (length xs)
                in Fin (sqrt (sum_list (map (\<lambda>x. \<bar>x - m\<bar> ^ 2) xs) / real (length xs)))))"

text \<open>
  Modelled from the spec: linear interpolation along a coordinate (\<^verbatim>\<open>Dataset.interp\<close>
  of xarray, method \<open>linear\<close>), an external capability. By section 6 each field is
  interpolated linearly between the two neighbouring coordinates, without extrapolation: a
  target outside the coordinate range gives \<open>NaN\<close>. The coordinates are increasing.
\<close>

fun lerp :: "real \<Rightarrow> pyfloat \<Rightarrow> real \<Rightarrow> pyfloat \<Rightarrow> real \<Rightarrow> pyfloat" where
  "lerp x0 (Fin y0) x1 (Fin y1) x = Fin (y0 + (y1 - y0) * (x - x0) / (x1 - x0))"
| "lerp x0 _ x1 _ x = NaN"

fun np_interp :: "(real \<times> pyfloat) list \<Rightarrow> real \<Rightarrow> pyfloat" where
  "np_interp [] x = NaN"
| "np_interp [(x0, y0)] x = (if x = x0 then y0 else NaN)"
| "np_interp ((x0, y0) # (x1, y1) # ps) x =
     (if x < x0 then NaN
      else if x = x0 then y0
      else if x < x1 then lerp x0 y0 x1 y1 x
      else np_interp ((x1, y1) # ps) x)"

text \<open>A dataset over a float coordinate: (coordinate, lat, lon) rows; its interpolation.\<close>

type_synonym fdataset = "(real \<times> pyfloat \<times> pyfloat) list"

definition ds_interp :: "fdataset \<Rightarrow> real \<Rightarrow> pyfloat \<times> pyfloat" where
  "ds_interp ds x =
     (np_interp (map (\<lambda>(t, la, lo). (t, la)) ds) x,
      np_interp (map (\<lambda>(t, la, lo). (t, lo)) ds) x)"

text \<open>
  The cast of a float to an integer (\<^verbatim>\<open>float * np.timedelta64\<close> gives whole nanoseconds):
  truncation towards zero.
\<close>

definition c_trunc :: "real \<Rightarrow> int" where
  "c_trunc r = (if 0 \<le> r then \<lfloor>r\<rfloor> else \<lceil>r\<rceil>)"

section \<open>Tracks and overpasses\<close>

text \<open>
  A track is a dataset over the dimension \<open>time\<close> (\<^verbatim>\<open>datetime64[ns]\<close>: whole nanoseconds)
  with the variables \<open>lat\<close> and \<open>lon\<close>; its samples are in order of strictly increasing
  time (spec, section 3).
\<close>

record sample =
  time :: int
  lat :: real
  lon :: real

type_synonym track = "sample list"

definition strict_times :: "track \<Rightarrow> bool" where
  "strict_times tr = sorted_wrt (<) (map time tr)"

text \<open>
  \<^verbatim>\<open>get_overpass_point\<close> (lines 36 to 45): the distances of all samples to the target,
  \<^verbatim>\<open>np.argmin\<close>, and the distance and time at that index.
\<close>

definition get_overpass_point :: "geod \<Rightarrow> track \<Rightarrow> real \<Rightarrow> real \<Rightarrow> error + (pyfloat \<times> int)" where
  "get_overpass_point gd ds target_lat target_lon =
     (let dist = map (\<lambda>s. geod_inv gd (Fin (lon s), Fin (lat s)) (Fin target_lon, Fin target_lat)) ds
      in case np_argmin dist of
           Inl e \<Rightarrow> Inl e
         | Inr i \<Rightarrow> Inr (dist ! i, time (ds ! i)))"

text \<open>
  \<^verbatim>\<open>a_track.sel(time=slice(lo, hi))\<close>: on an increasing index, the samples with
  \<open>lo \<le> time \<le> hi\<close>, both ends included.
\<close>

definition sel_time :: "track \<Rightarrow> int \<Rightarrow> int \<Rightarrow> track" where
  "sel_time tr lo hi = filter (\<lambda>s. lo \<le> time s \<and> time s \<le> hi) tr"

text \<open>
  \<^verbatim>\<open>b_track.interp(time=a.time)\<close>: the track \<open>b_track\<close> at the timestamps of \<open>a\<close>, as
  (lat, lon) rows aligned with \<open>a\<close>.
\<close>

definition to_fdataset :: "track \<Rightarrow> fdataset" where
  "to_fdataset tr = map (\<lambda>s. (real_of_int (time s), Fin (lat s), Fin (lon s))) tr"

definition resample :: "track \<Rightarrow> track \<Rightarrow> (pyfloat \<times> pyfloat) list" where
  "resample b_track a = map (\<lambda>s. ds_interp (to_fdataset b_track) (real_of_int (time s))) a"

text \<open>
  \<^verbatim>\<open>assign_coords(time=(x.time - t_guess) / t_unit)\<close>: the time axis in float seconds
  from \<open>t_guess\<close>; \<open>t_unit\<close> is one second in nanoseconds.
\<close>

definition t_unit :: int where
  "t_unit = 1000000000"

definition rel_coords :: "int \<Rightarrow> track \<Rightarrow> (pyfloat \<times> pyfloat) list \<Rightarrow> fdataset" where
  "rel_coords t_guess a rows =
     map (\<lambda>(s, (la, lo)). (real_of_int (time s - t_guess) / real_of_int t_unit, la, lo)) (zip a rows)"

text \<open>
  The body of \<^verbatim>\<open>cost\<close> (lines 81 to 85), which lines 89 to 91 repeat at the minimizer's
  result: both datasets interpolated at \<open>t\<close>, and their geodesic distance.
\<close>

definition interp_dist :: "geod \<Rightarrow> fdataset \<Rightarrow> fdataset \<Rightarrow> real \<Rightarrow> pyfloat" where
  "interp_dist gd a' b' t =
     (let (ala, alo) = ds_interp a' t;
          (bla, blo) = ds_interp b' t
      in geod_inv gd (blo, bla) (alo, ala))"

text \<open>
  \<^verbatim>\<open>get_overpass_track\<close> (lines 58 to 94). \<^verbatim>\<open>b_track.time[[0, -1]]\<close> raises
  \<open>IndexError\<close> on an empty \<open>b_track\<close>. When no sample of \<open>a_track\<close> lies in the window
  the restriction is empty and the call raises \<open>ValueError\<close>, at the latest in
  \<^verbatim>\<open>dist.argmin()\<close> (line 68), before the branch on \<open>optimize\<close>. Nothing reads
  \<^verbatim>\<open>res.success\<close>.
\<close>

definition get_overpass_track ::
  "geod \<Rightarrow> minimizer1 \<Rightarrow> track \<Rightarrow> track \<Rightarrow> bool \<Rightarrow> error + (pyfloat \<times> int)" where
  "get_overpass_track gd minimize a_track b_track optimize =
     (if b_track = [] then Inl IndexError
      else
        (let a = sel_time a_track (time (hd b_track)) (time (last b_track));
             b = resample b_track a;
             dist = map (\<lambda>(s, (bla, blo)). geod_inv gd (blo, bla) (Fin (lon s), Fin (lat s)))
                      (zip a b)
         in case np_argmin dist of
              Inl e \<Rightarrow> Inl e
            | Inr i \<Rightarrow>
                if optimize then
                  (let t_guess = time (a ! i);
                       a' = rel_coords t_guess a (map (\<lambda>s. (Fin (lat s), Fin (lon s))) a);
                       b' = rel_coords t_guess a b;
                       cost = interp_dist gd a' b';
                       res = minimize cost 0;
                       t = opt_x res
                   in Inr (interp_dist gd a' b' t, t_guess + c_trunc (t * real_of_int t_unit)))
                else Inr (dist ! i, time (a ! i))))"

section \<open>Circle fitting\<close>

text \<open>
  The points are (lat, lon) pairs: the arrays \<open>lat\<close> and \<open>lon\<close> of equal length, zipped.
  \<open>center_dists\<close> is \<^verbatim>\<open>geod.inv(lon, lat, full_like(lon, clon), full_like(lat, clat))\<close>.
\<close>

type_synonym point = "real \<times> real"

type_synonym circle = "pyfloat \<times> pyfloat \<times> pyfloat"

definition center_dists :: "geod \<Rightarrow> point list \<Rightarrow> pyfloat \<times> pyfloat \<Rightarrow> pyfloat list" where
  "center_dists gd pts c =
     (case c of (clat, clon) \<Rightarrow> map (\<lambda>(la, lo). geod_inv gd (Fin lo, Fin la) (clon, clat)) pts)"

text \<open>\<^verbatim>\<open>fit_circle\<close> (lines 190 to 213). It has no test on the number of points.\<close>

definition fit_circle :: "geod \<Rightarrow> minimizer2 \<Rightarrow> point list \<Rightarrow> circle" where
  "fit_circle gd minimize pts =
     (let clat = np_mean (map (\<lambda>(la, lo). Fin la) pts);
          clon = np_mean (map (\<lambda>(la, lo). Fin lo) pts);
          cost = (\<lambda>x. np_std (center_dists gd pts x));
          res = minimize cost (clat, clon);
          (clat, clon) = opt_x res;
          d = center_dists gd pts (clat, clon)
      in (clat, clon, np_mean d))"

text \<open>
  The generator of \<^verbatim>\<open>np.random.default_rng(12345)\<close> is a state of an abstract type
  \<open>'g\<close>; \<open>default_rng\<close> seeds it. \<^verbatim>\<open>rng.choice(m, 3, replace=False)\<close> raises
  \<open>ValueError\<close> when the population \<open>m\<close> is smaller than 3, and otherwise returns the
  indices drawn and advances the generator: the parameter \<open>choice\<close>.
\<close>

type_synonym 'g chooser = "'g \<Rightarrow> nat \<Rightarrow> nat list \<times> 'g"

definition rng_choice :: "'g chooser \<Rightarrow> 'g \<Rightarrow> nat \<Rightarrow> (error + nat list) \<times> 'g" where
  "rng_choice choice rng m =
     (if m < 3 then (Inl ValueError, rng)
      else (case choice rng m of (idxs, rng') \<Rightarrow> (Inr idxs, rng')))"

text \<open>\<^verbatim>\<open>lat[idxs]\<close> with an index array: \<open>IndexError\<close> on an index out of range.\<close>

definition take_idxs :: "'a list \<Rightarrow> nat list \<Rightarrow> error + 'a list" where
  "take_idxs xs idxs =
     (if list_all (\<lambda>i. i < length xs) idxs then Inr (map ((!) xs) idxs) else Inl IndexError)"

text \<open>\<^verbatim>\<open>np.abs(radius - d) <= distance_range\<close>: false when either side is \<open>NaN\<close>.\<close>

fun inlier :: "real \<Rightarrow> pyfloat \<Rightarrow> pyfloat \<Rightarrow> bool" where
  "inlier distance_range (Fin radius) (Fin d) = (\<bar>radius - d\<bar> \<le> distance_range)"
| "inlier distance_range _ _ = False"

text \<open>
  The trial loop (lines 228 to 236), with the generator threaded through and the list
  \<open>samples\<close> as accumulator; it returns the generator it leaves behind as well.
\<close>

type_synonym trial = "nat \<times> pyfloat \<times> pyfloat \<times> pyfloat"

fun trials ::
  "geod \<Rightarrow> minimizer2 \<Rightarrow> 'g chooser \<Rightarrow> point list \<Rightarrow> real \<Rightarrow> nat \<Rightarrow> 'g \<Rightarrow> trial list
     \<Rightarrow> (error + trial list) \<times> 'g" where
  "trials gd minimize choice pts distance_range 0 rng samples = (Inr samples, rng)"
| "trials gd minimize choice pts distance_range (Suc k) rng samples =
     (case rng_choice choice rng (length pts) of
        (Inl e, rng') \<Rightarrow> (Inl e, rng')
      | (Inr idxs, rng') \<Rightarrow>
          (case take_idxs pts idxs of
             Inl e \<Rightarrow> (Inl e, rng')
           | Inr sub \<Rightarrow>
               (case fit_circle gd minimize sub of
                  (clat, clon, radius) \<Rightarrow>
                    (let d = center_dists gd pts (clat, clon);
                         n_in = length (filter (inlier distance_range radius) d)
                     in trials gd minimize choice pts distance_range k rng'
                          (samples @ [(n_in, clat, clon, radius)])))))"

text \<open>
  \<^verbatim>\<open>sorted(samples)\<close>: Python compares tuples at the first position where they differ by
  \<open>==\<close>, with \<open><\<close> there; on floats both are false against \<open>NaN\<close>. The sort is a stable
  insertion sort (an element goes before the first one it is less than), which is what
  the list sort of Python computes whenever \<open><\<close> is a strict order on the list.
\<close>

fun f_eq :: "pyfloat \<Rightarrow> pyfloat \<Rightarrow> bool" where
  "f_eq (Fin x) (Fin y) = (x = y)"
| "f_eq _ _ = False"

fun f_lt :: "pyfloat \<Rightarrow> pyfloat \<Rightarrow> bool" where
  "f_lt (Fin x) (Fin y) = (x < y)"
| "f_lt _ _ = False"

fun tuple_lt :: "trial \<Rightarrow> trial \<Rightarrow> bool" where
  "tuple_lt (n1, a1, b1, r1) (n2, a2, b2, r2) =
     (if n1 \<noteq> n2 then n1 < n2
      else if \<not> f_eq a1 a2 then f_lt a1 a2
      else if \<not> f_eq b1 b2 then f_lt b1 b2
      else if \<not> f_eq r1 r2 then f_lt r1 r2
      else False)"

fun py_insort :: "trial \<Rightarrow> trial list \<Rightarrow> trial list" where
  "py_insort x [] = [x]"
| "py_insort x (y # ys) = (if tuple_lt x y then x # y # ys else y # py_insort x ys)"

definition py_sorted :: "trial list \<Rightarrow> trial list" where
  "py_sorted xs = foldl (\<lambda>acc x. py_insort x acc) [] xs"

text \<open>
  \<^verbatim>\<open>ransac_fit_circle\<close> (lines 215 to 241), with the generator it leaves behind.
  \<^verbatim>\<open>range(n)\<close> is empty for \<open>n \<le> 0\<close>, and \<^verbatim>\<open>sorted(samples)[-1]\<close> then raises
  \<open>IndexError\<close>. \<^verbatim>\<open>lat[good]\<close> keeps the points whose mask entry is true. There is no
  test on the number of inliers.
\<close>

definition ransac_run ::
  "geod \<Rightarrow> minimizer2 \<Rightarrow> (int \<Rightarrow> 'g) \<Rightarrow> 'g chooser \<Rightarrow> point list \<Rightarrow> real \<Rightarrow> int
     \<Rightarrow> (error + circle) \<times> 'g" where
  "ransac_run gd minimize default_rng choice pts distance_range n =
     (let rng = default_rng 12345
      in case trials gd minimize choice pts distance_range (nat n) rng [] of
           (Inl e, rng') \<Rightarrow> (Inl e, rng')
         | (Inr samples, rng') \<Rightarrow>
             (if py_sorted samples = [] then (Inl IndexError, rng')
              else
                (case last (py_sorted samples) of
                   (n_in_good, clat, clon, radius) \<Rightarrow>
                     (let d = center_dists gd pts (clat, clon);
                          good = map (inlier distance_range radius) d
                      in (Inr (fit_circle gd minimize (map fst (filter snd (zip pts good)))),
                          rng')))))"

definition ransac_fit_circle ::
  "geod \<Rightarrow> minimizer2 \<Rightarrow> (int \<Rightarrow> 'g) \<Rightarrow> 'g chooser \<Rightarrow> point list \<Rightarrow> real \<Rightarrow> int
     \<Rightarrow> error + circle" where
  "ransac_fit_circle gd minimize default_rng choice pts distance_range n =
     fst (ransac_run gd minimize default_rng choice pts distance_range n)"

text \<open>
  The same procedure with the generator as an object of the interpreter.
  \<^verbatim>\<open>np.random.default_rng(12345)\<close> (line 225) creates a generator object and binds the
  local name \<open>rng\<close> to it; \<^verbatim>\<open>rng.choice\<close> (line 229) changes that object in place. The
  objects are a store, a list indexed by address: creation appends a seeded generator
  and gives its address, \<open>choice\<close> reads and overwrites the object at an address. A call
  takes the store it finds, with whatever generators earlier calls have left in it, and
  returns the store it leaves with its result.
\<close>

type_synonym 'g store = "'g list"

definition new_generator :: "(int \<Rightarrow> 'g) \<Rightarrow> int \<Rightarrow> 'g store \<Rightarrow> nat \<times> 'g store" where
  "new_generator default_rng seed st = (length st, st @ [default_rng seed])"

definition store_choice ::
  "'g chooser \<Rightarrow> nat \<Rightarrow> nat \<Rightarrow> 'g store \<Rightarrow> (error + nat list) \<times> 'g store" where
  "store_choice choice rng m st =
     (if m < 3 then (Inl ValueError, st)
      else (case choice (st ! rng) m of (idxs, g') \<Rightarrow> (Inr idxs, st[rng := g'])))"

fun store_trials ::
  "geod \<Rightarrow> minimizer2 \<Rightarrow> 'g chooser \<Rightarrow> point list \<Rightarrow> real \<Rightarrow> nat \<Rightarrow> nat \<Rightarrow> 'g store \<Rightarrow> trial list
     \<Rightarrow> (error + trial list) \<times> 'g store" where
  "store_trials gd minimize choice pts distance_range 0 rng st samples = (Inr samples, st)"
| "store_trials gd minimize choice pts distance_range (Suc k) rng st samples =
     (case store_choice choice rng (length pts) st of
        (Inl e, st') \<Rightarrow> (Inl e, st')
      | (Inr idxs, st') \<Rightarrow>
          (case take_idxs pts idxs of
             Inl e \<Rightarrow> (Inl e, st')
           | Inr sub \<Rightarrow>
               (case fit_circle gd minimize sub of
                  (clat, clon, radius) \<Rightarrow>
                    (let d = center_dists gd pts (clat, clon);
                         n_in = length (filter (inlier distance_range radius) d)
                     in store_trials gd minimize choice pts distance_range k rng st'
                          (samples @ [(n_in, clat, clon, radius)])))))"

definition ransac_fit_circle_store ::
  "geod \<Rightarrow> minimizer2 \<Rightarrow> (int \<Rightarrow> 'g) \<Rightarrow> 'g chooser \<Rightarrow> 'g store \<Rightarrow> point list \<Rightarrow> real \<Rightarrow> int
     \<Rightarrow> (error + circle) \<times> 'g store" where
  "ransac_fit_circle_store gd minimize default_rng choice st pts distance_range n =
     (case new_generator default_rng 12345 st of
        (rng, st1) \<Rightarrow>
          (case store_trials gd minimize choice pts distance_range (nat n) rng st1 [] of
             (Inl e, st2) \<Rightarrow> (Inl e, st2)
           | (Inr samples, st2) \<Rightarrow>
               (if py_sorted samples = [] then (Inl IndexError, st2)
                else
                  (case last (py_sorted samples) of
                     (n_in_good, clat, clon, radius) \<Rightarrow>
                       (let d = center_dists gd pts (clat, clon);
                            good = map (inlier distance_range radius) d
                        in (Inr (fit_circle gd minimize (map fst (filter snd (zip pts good)))),
                            st2))))))"

section \<open>Notions of the specification, and example inputs\<close>

text \<open>The first index at which a list of distances is least (\<open>plain argmin\<close>).\<close>

definition first_min :: "real list \<Rightarrow> nat \<Rightarrow> bool" where
  "first_min xs r =
     (r < length xs \<and> (\<forall>j < length xs. xs ! r \<le> xs ! j) \<and> (\<forall>j < r. xs ! r < xs ! j))"

text \<open>
  Stand-ins for the external capabilities, for the examples: a distance in the plane
  (the taxicab metric on (lon, lat) pairs), a minimizer that returns a fixed point with a
  fixed convergence flag, and a minimizer with its convergence flag overwritten.
\<close>

definition planar_gd :: geod where
  "planar_gd p q = \<bar>fst p - fst q\<bar> + \<bar>snd p - snd q\<bar>"

definition fixed_minimizer :: "real \<Rightarrow> bool \<Rightarrow> minimizer1" where
  "fixed_minimizer x ok = (\<lambda>cost x0. \<lparr>opt_x = x, success = ok\<rparr>)"


text \<open>
  Example tracks. \<open>east_2s\<close> flies two degrees east along the equator in two seconds;
  \<open>hover_2s\<close> stays at longitude 1 over the same two seconds. \<open>sparse_10\<close> has samples at
  times 0 and 10, \<open>short_4_6\<close> at times 4 and 6 (inside the span of \<open>sparse_10\<close>, between
  its samples) and \<open>late_14_16\<close> at times 14 and 16 (after it).
\<close>

definition east_2s :: track where
  "east_2s = [\<lparr>time = 0, lat = 0, lon = 0\<rparr>, \<lparr>time = 2000000000, lat = 0, lon = 2\<rparr>]"

definition hover_2s :: track where
  "hover_2s = [\<lparr>time = 0, lat = 0, lon = 1\<rparr>, \<lparr>time = 2000000000, lat = 0, lon = 1\<rparr>]"

definition sparse_10 :: track where
  "sparse_10 = [\<lparr>time = 0, lat = 0, lon = 0\<rparr>, \<lparr>time = 10, lat = 0, lon = 2\<rparr>]"

definition short_4_6 :: track where
  "short_4_6 = [\<lparr>time = 4, lat = 0, lon = 1\<rparr>, \<lparr>time = 6, lat = 0, lon = 1\<rparr>]"

definition late_14_16 :: track where
  "late_14_16 = [\<lparr>time = 14, lat = 0, lon = 1\<rparr>, \<lparr>time = 16, lat = 0, lon = 1\<rparr>]"

text \<open>
  Linear interpolation in the words of the specification: the value at \<open>x\<close> of the
  straight line between the last knot at or before \<open>x\<close> and the first knot at or after
  \<open>x\<close> (the knot's own value where both are the same knot). \<open>track_at tr f t\<close> is the
  field \<open>f\<close> of the track \<open>tr\<close> interpolated at time \<open>t\<close>, and \<open>coarse_dist\<close> the
  geodesic distance between the resampled track and a sample at the sample's timestamp.
\<close>

definition linear_at :: "(real \<times> real) list \<Rightarrow> real \<Rightarrow> real" where
  "linear_at ps x =
     (let p0 = last (filter (\<lambda>p. fst p \<le> x) ps);
          p1 = hd (filter (\<lambda>p. x \<le> fst p) ps)
      in if fst p0 = fst p1 then snd p0
         else snd p0 + (snd p1 - snd p0) * (x - fst p0) / (fst p1 - fst p0))"

definition fin_knots :: "(real \<times> real) list \<Rightarrow> (real \<times> pyfloat) list" where
  "fin_knots ps = map (\<lambda>(t, y). (t, Fin y)) ps"

definition knots :: "(sample \<Rightarrow> real) \<Rightarrow> track \<Rightarrow> (real \<times> real) list" where
  "knots f tr = map (\<lambda>s. (real_of_int (time s), f s)) tr"

definition track_at :: "track \<Rightarrow> (sample \<Rightarrow> real) \<Rightarrow> int \<Rightarrow> real" where
  "track_at tr f t = linear_at (knots f tr) (real_of_int t)"

definition coarse_dist :: "geod \<Rightarrow> track \<Rightarrow> sample \<Rightarrow> real" where
  "coarse_dist gd b_track s =
     gd (track_at b_track lon (time s), track_at b_track lat (time s)) (lon s, lat s)"






text \<open>
  The circle fit in the words of the specification (section 4.3): the arithmetic mean, the
  standard deviation (of the whole population), and the cost that the minimization is
  given, the standard deviation of the geodesic distances of all points to a candidate
  centre. A circle with real centre and radius is an \<open>rcircle\<close>.
\<close>

definition mean :: "real list \<Rightarrow> real" where
  "mean xs = sum_list xs / real (length xs)"

definition std_dev :: "real list \<Rightarrow> real" where
  "std_dev xs = sqrt (mean (map (\<lambda>x. (x - mean xs)\<^sup>2) xs))"

definition std_cost :: "geod \<Rightarrow> point list \<Rightarrow> pyfloat \<times> pyfloat \<Rightarrow> pyfloat" where
  "std_cost gd pts c =
     (case c of
        (Fin clat, Fin clon) \<Rightarrow> Fin (std_dev (map (\<lambda>p. gd (snd p, fst p) (clon, clat)) pts))
      | _ \<Rightarrow> NaN)"

type_synonym rcircle = "real \<times> real \<times> real"

definition fin_circle :: "rcircle \<Rightarrow> circle" where
  "fin_circle c = (case c of (clat, clon, radius) \<Rightarrow> (Fin clat, Fin clon, Fin radius))"

text \<open>
  The RANSAC procedure in the words of the specification (section 4.4): a point is an
  inlier of a circle when its distance to the centre differs from the radius by at most
  \<open>distance_range\<close>; the score of a circle is the number of points, among all, that are
  inliers; recorded tuples (score, centre latitude, centre longitude, radius) are compared
  lexicographically. \<open>draws\<close> are the index lists that successive calls of the
  generator's \<open>choice\<close> return.
\<close>

definition is_inlier :: "geod \<Rightarrow> real \<Rightarrow> rcircle \<Rightarrow> point \<Rightarrow> bool" where
  "is_inlier gd distance_range c p =
     (case c of (clat, clon, radius) \<Rightarrow>
        \<bar>radius - gd (snd p, fst p) (clon, clat)\<bar> \<le> distance_range)"

definition inlier_count :: "geod \<Rightarrow> point list \<Rightarrow> real \<Rightarrow> rcircle \<Rightarrow> nat" where
  "inlier_count gd pts distance_range c =
     card {i. i < length pts \<and> is_inlier gd distance_range c (pts ! i)}"

definition lex_le :: "nat \<times> rcircle \<Rightarrow> nat \<times> rcircle \<Rightarrow> bool" where
  "lex_le s w =
     (case (s, w) of ((n1, a1, b1, r1), (n2, a2, b2, r2)) \<Rightarrow>
        n1 < n2 \<or> (n1 = n2 \<and> (a1 < a2 \<or> (a1 = a2 \<and> (b1 < b2 \<or> (b1 = b2 \<and> r1 \<le> r2))))))"

fun draws :: "'g chooser \<Rightarrow> 'g \<Rightarrow> nat \<Rightarrow> nat \<Rightarrow> nat list list" where
  "draws choice g m 0 = []"
| "draws choice g m (Suc k) = fst (choice g m) # draws choice (snd (choice g m)) m k"

text \<open>
  What the module relies on from numpy and scipy: \<^verbatim>\<open>choice(m, 3, replace=False)\<close> returns
  three distinct indices below \<open>m\<close>, and the minimization started at a finite point ends
  at a finite point.
\<close>

definition choice_ok :: "'g chooser \<Rightarrow> bool" where
  "choice_ok choice =
     (\<forall>g m. 3 \<le> m \<longrightarrow>
        length (fst (choice g m)) = 3 \<and> distinct (fst (choice g m))
        \<and> (\<forall>i\<in>set (fst (choice g m)). i < m))"

definition finite_minimizer :: "minimizer2 \<Rightarrow> bool" where
  "finite_minimizer minimize =
     (\<forall>cost a b. \<exists>u v. opt_x (minimize cost (Fin a, Fin b)) = (Fin u, Fin v))"

text \<open>
  A recorded tuple with finite entries; the tuple that a trial on the index list \<open>idxs\<close>
  records (the body of the loop); and a list whose last element has none above it.
\<close>

definition to_trial :: "nat \<times> rcircle \<Rightarrow> trial" where
  "to_trial s = (case s of (n, clat, clon, radius) \<Rightarrow> (n, Fin clat, Fin clon, Fin radius))"

definition trial_of :: "geod \<Rightarrow> minimizer2 \<Rightarrow> point list \<Rightarrow> real \<Rightarrow> nat list \<Rightarrow> trial" where
  "trial_of gd minimize pts distance_range idxs =
     (case fit_circle gd minimize (map ((!) pts) idxs) of
        (clat, clon, radius) \<Rightarrow>
          (length (filter (inlier distance_range radius) (center_dists gd pts (clat, clon))),
           clat, clon, radius))"

definition last_is_max :: "trial list \<Rightarrow> bool" where
  "last_is_max ts = (ts = [] \<or> (\<forall>y\<in>set ts. \<not> tuple_lt (last ts) y))"

text \<open>
  Stand-ins for the minimization and the generator, for the examples: a minimizer that
  ends where it starts, a generator that is a counter seeded with the seed, and a \<open>choice\<close>
  that returns three successive indices from a start that moves with the counter.
\<close>

definition start_minimizer :: minimizer2 where
  "start_minimizer = (\<lambda>cost x0. \<lparr>opt_x = x0, success = True\<rparr>)"

definition counter_rng :: "int \<Rightarrow> nat" where
  "counter_rng seed = nat seed"

definition window_choice :: "nat chooser" where
  "window_choice g m = ([g mod (m - 2), g mod (m - 2) + 1, g mod (m - 2) + 2], Suc g)"

definition corner_points :: "point list" where
  "corner_points = [(0, 0), (0, 3), (3, 0)]"

definition five_points :: "point list" where
  "five_points = [(0, 0), (0, 3), (3, 0), (3, 3), (10, 10)]"

section \<open>Properties of segments\<close>

lemma parse_segment_dict: "parse_segment (PDict d) = Inr (PDict d)"
  by (simp add: parse_segment_def)

lemma parse_segment_returns_dict:
  assumes "parse_segment x = Inr y"
  shows "is_dict y"
  using assms
  by (auto simp: parse_segment_def Let_def split: pyval.splits list.splits)

lemma parse_segment_tuple_keys:
  assumes "xs \<noteq> []"
  shows "\<exists>d. parse_segment (PTuple xs) = Inr (PDict d)
           \<and> map fst d = take (length xs) segment_fields
           \<and> (\<forall>i < min 4 (length xs). map_of d (segment_fields ! i) = Some (xs ! i))"
proof (cases xs)
  case Nil
  with assms show ?thesis by simp
next
  case (Cons x0 r0)
  note c0 = Cons
  show ?thesis
  proof (cases r0)
    case Nil
    with c0 show ?thesis
      by (simp add: parse_segment_def segment_fields_def)
  next
    case (Cons x1 r1)
    note c1 = Cons
    show ?thesis
    proof (cases r1)
      case Nil
      with c0 c1 show ?thesis
        by (auto simp: parse_segment_def segment_fields_def less_Suc_eq)
    next
      case (Cons x2 r2)
      note c2 = Cons
      show ?thesis
      proof (cases r2)
        case Nil
        with c0 c1 c2 show ?thesis
          by (auto simp: parse_segment_def segment_fields_def less_Suc_eq)
      next
        case (Cons x3 r3)
        with c0 c1 c2 show ?thesis
          by (auto simp: parse_segment_def segment_fields_def less_Suc_eq numeral_eq_Suc)
      qed
    qed
  qed
qed

text \<open>
  Claim C10, as stated, at the empty tuple: \<^verbatim>\<open>parse_segment(())\<close> raises \<open>IndexError\<close> at
  \<^verbatim>\<open>segment[0]\<close>, so a tuple input does not always give a dict with the key \<open>slice\<close>.
\<close>

theorem parse_segment_empty_tuple_counterexample:
  "parse_segment (PTuple []) = Inl IndexError
   \<and> parse_segment (PTuple []) \<noteq> Inr (PDict [(''slice'', PNone)])
   \<and> \<not> is_dict (PTuple [])"
  by (simp add: parse_segment_def)

text \<open>
  Claim C10, amended: \<^verbatim>\<open>parse_segment\<close> returns every dict unchanged; on a tuple that is
  not empty it returns a dict whose keys are the first \<open>min 4 (length xs)\<close> of \<open>slice\<close>,
  \<open>kinds\<close>, \<open>name\<close>, \<open>remarks\<close>, in this order, each bound to the tuple's element at
  its position (so \<open>slice\<close> is always a key, and positions from 4 on are dropped); on a
  value that is neither tuple nor dict it returns the dict with the single key \<open>slice\<close>
  bound to the value; and it is idempotent on every input, the \<open>IndexError\<close> of the empty
  tuple included: parsing the result of a parse changes nothing.
\<close>

theorem parse_segment_idempotent:
  "parse_segment (PDict d) = Inr (PDict d)
   \<and> (xs \<noteq> [] \<longrightarrow>
        (\<exists>d'. parse_segment (PTuple xs) = Inr (PDict d')
           \<and> map fst d' = take (length xs) segment_fields
           \<and> ''slice'' \<in> set (map fst d')
           \<and> (\<forall>i < min 4 (length xs). map_of d' (segment_fields ! i) = Some (xs ! i))))
   \<and> (\<not> is_tuple x \<and> \<not> is_dict x \<longrightarrow> parse_segment x = Inr (PDict [(''slice'', x)]))
   \<and> bind_err (parse_segment y) parse_segment = parse_segment y"
proof -
  have tuple: "xs \<noteq> [] \<longrightarrow>
        (\<exists>d'. parse_segment (PTuple xs) = Inr (PDict d')
           \<and> map fst d' = take (length xs) segment_fields
           \<and> ''slice'' \<in> set (map fst d')
           \<and> (\<forall>i < min 4 (length xs). map_of d' (segment_fields ! i) = Some (xs ! i)))"
  proof
    assume ne: "xs \<noteq> []"
    from parse_segment_tuple_keys [OF ne] obtain d' where
      d': "parse_segment (PTuple xs) = Inr (PDict d')"
          "map fst d' = take (length xs) segment_fields"
          "\<forall>i < min 4 (length xs). map_of d' (segment_fields ! i) = Some (xs ! i)"
      by blast
    from ne have "0 < length xs" by simp
    then have "''slice'' \<in> set (take (length xs) segment_fields)"
      by (cases "length xs") (simp_all add: segment_fields_def)
    then have "''slice'' \<in> set (map fst d')"
      by (simp only: d'(2))
    with d' show "\<exists>d'. parse_segment (PTuple xs) = Inr (PDict d')
           \<and> map fst d' = take (length xs) segment_fields
           \<and> ''slice'' \<in> set (map fst d')
           \<and> (\<forall>i < min 4 (length xs). map_of d' (segment_fields ! i) = Some (xs ! i))"
      by blast
  qed
  have other: "\<not> is_tuple x \<and> \<not> is_dict x \<longrightarrow> parse_segment x = Inr (PDict [(''slice'', x)])"
    by (cases x) (simp_all add: parse_segment_def)
  have idem: "bind_err (parse_segment y) parse_segment = parse_segment y"
  proof (cases "parse_segment y")
    case (Inl e)
    then show ?thesis by (simp add: bind_err_def)
  next
    case (Inr v)
    from parse_segment_returns_dict [OF Inr] obtain d where "v = PDict d"
      by (cases v) simp_all
    with Inr show ?thesis by (simp add: bind_err_def parse_segment_dict)
  qed
  from parse_segment_dict tuple other idem show ?thesis by blast
qed

theorem parse_segment_idempotent_witness:
  "parse_segment (PTuple [PSlice 0 60, PList [PStr ''circle''], PStr ''c1''])
     = Inr (PDict [(''slice'', PSlice 0 60), (''kinds'', PList [PStr ''circle'']),
                   (''name'', PStr ''c1'')])
   \<and> parse_segment (PSlice 0 60) = Inr (PDict [(''slice'', PSlice 0 60)])
   \<and> bind_err (parse_segment (PTuple [PSlice 0 60, PList [PStr ''circle''], PStr ''c1'']))
        parse_segment
      = Inr (PDict [(''slice'', PSlice 0 60), (''kinds'', PList [PStr ''circle'']),
                    (''name'', PStr ''c1'')])"
  using parse_segment_idempotent
    [of "[]" "[PSlice 0 60, PList [PStr ''circle''], PStr ''c1'']" "PSlice 0 60"
        "PTuple [PSlice 0 60, PList [PStr ''circle''], PStr ''c1'']"]
  by (simp add: parse_segment_def)

section \<open>Properties of the overpass finders\<close>

subsection \<open>The argmin scan\<close>

lemma first_min_snoc_keep:
  assumes "first_min pre mi" "pre ! mi \<le> x"
  shows "first_min (pre @ [x]) mi"
  using assms by (auto simp: first_min_def nth_append less_Suc_eq)

lemma first_min_snoc_new:
  assumes "first_min pre mi" "x < pre ! mi"
  shows "first_min (pre @ [x]) (length pre)"
  using assms by (fastforce simp: first_min_def nth_append less_Suc_eq)

text \<open>
  The invariant of the scan: with \<open>pre\<close> the elements already seen and \<open>mi\<close> the first
  index of their minimum, the scan of the rest ends at the first index of the minimum of
  the whole list.
\<close>

lemma argmin_loop_first_min:
  assumes "first_min pre mi"
  shows "first_min (pre @ xs) (argmin_loop (map Fin xs) (length pre) (Fin (pre ! mi)) mi)"
  using assms
proof (induction xs arbitrary: pre mi)
  case Nil
  then show ?case by simp
next
  case (Cons x xs)
  show ?case
  proof (cases "pre ! mi \<le> x")
    case True
    from first_min_snoc_keep [OF Cons.prems True]
    have fm: "first_min (pre @ [x]) mi" .
    from Cons.prems have "mi < length pre" by (simp add: first_min_def)
    then have nth: "(pre @ [x]) ! mi = pre ! mi" by (simp add: nth_append)
    from Cons.IH [OF fm] True show ?thesis by (simp add: nth)
  next
    case False
    then have lt: "x < pre ! mi" by simp
    from first_min_snoc_new [OF Cons.prems lt]
    have fm: "first_min (pre @ [x]) (length pre)" .
    from Cons.IH [OF fm] False show ?thesis by simp
  qed
qed

lemma np_argmin_first_min:
  assumes "xs \<noteq> []"
  shows "\<exists>i. np_argmin (map Fin xs) = Inr i \<and> first_min xs i"
proof (cases xs)
  case Nil
  with assms show ?thesis by simp
next
  case (Cons x r)
  have "first_min [x] 0" by (simp add: first_min_def)
  from argmin_loop_first_min [OF this, of r]
  show ?thesis by (simp add: np_argmin_def Cons)
qed

lemma first_min_Min:
  assumes "first_min xs i"
  shows "xs ! i = Min (set xs)"
proof -
  from assms have i: "i < length xs" and le: "\<forall>j < length xs. xs ! i \<le> xs ! j"
    by (simp_all add: first_min_def)
  have "Min (set xs) = xs ! i"
  proof (rule Min_eqI)
    show "finite (set xs)" by simp
    show "xs ! i \<le> y" if "y \<in> set xs" for y
      using that le by (auto simp: in_set_conv_nth)
    show "xs ! i \<in> set xs" using i by simp
  qed
  then show ?thesis by simp
qed

subsection \<open>The point overpass\<close>

lemma point_dists_fin:
  "map (\<lambda>s. geod_inv gd (Fin (lon s), Fin (lat s)) (Fin target_lon, Fin target_lat)) ds
     = map Fin (map (\<lambda>s. gd (lon s, lat s) (target_lon, target_lat)) ds)"
  by simp

lemma get_overpass_point_first_min:
  assumes "ds \<noteq> []"
  shows "\<exists>i. first_min (map (\<lambda>s. gd (lon s, lat s) (target_lon, target_lat)) ds) i
           \<and> get_overpass_point gd ds target_lat target_lon
               = Inr (Fin (gd (lon (ds ! i), lat (ds ! i)) (target_lon, target_lat)), time (ds ! i))"
proof -
  let ?d = "map (\<lambda>s. gd (lon s, lat s) (target_lon, target_lat)) ds"
  from assms have "?d \<noteq> []" by simp
  from np_argmin_first_min [OF this] obtain i where
    i: "np_argmin (map Fin ?d) = Inr i" "first_min ?d i"
    by blast
  from i(2) have lt: "i < length ds" by (simp add: first_min_def)
  have "get_overpass_point gd ds target_lat target_lon
          = Inr (Fin (gd (lon (ds ! i), lat (ds ! i)) (target_lon, target_lat)), time (ds ! i))"
    unfolding get_overpass_point_def point_dists_fin Let_def i(1)
    using lt by simp
  with i(2) show ?thesis by blast
qed

text \<open>
  Claim C5: on a track that is not empty, \<^verbatim>\<open>get_overpass_point\<close> returns the least of
  the geodesic distances of the samples to the target (the minimum of the set of
  distances), with the time of the first sample that attains it: the plain argmin, with no
  interpolation. On the track \<open>[(0,0,t0), (0,1,t1), (0,2,t2)]\<close> with target \<open>(0,1)\<close>,
  for a solver that gives 0 from the target to itself, a positive distance from \<open>(0,0)\<close>
  and no negative distance from \<open>(0,2)\<close>, it returns distance 0 and time \<open>t1\<close>.
\<close>

theorem get_overpass_point_argmin:
  "(ds \<noteq> [] \<longrightarrow>
      (\<exists>i. first_min (map (\<lambda>s. gd (lon s, lat s) (target_lon, target_lat)) ds) i
         \<and> get_overpass_point gd ds target_lat target_lon
             = Inr (Fin (Min (set (map (\<lambda>s. gd (lon s, lat s) (target_lon, target_lat)) ds))),
                    time (ds ! i))))
   \<and> (gd (1, 0) (1, 0) = 0 \<and> 0 < gd (0, 0) (1, 0) \<and> 0 \<le> gd (2, 0) (1, 0) \<longrightarrow>
        get_overpass_point gd
          [\<lparr>time = t0, lat = 0, lon = 0\<rparr>, \<lparr>time = t1, lat = 0, lon = 1\<rparr>,
           \<lparr>time = t2, lat = 0, lon = 2\<rparr>] 0 1
          = Inr (Fin 0, t1))"
proof (intro conjI impI)
  assume ne: "ds \<noteq> []"
  let ?d = "map (\<lambda>s. gd (lon s, lat s) (target_lon, target_lat)) ds"
  from get_overpass_point_first_min [OF ne, of gd target_lon target_lat] obtain i where
    i: "first_min ?d i"
       "get_overpass_point gd ds target_lat target_lon
          = Inr (Fin (gd (lon (ds ! i), lat (ds ! i)) (target_lon, target_lat)), time (ds ! i))"
    by blast
  from i(1) have lt: "i < length ds" by (simp add: first_min_def)
  from first_min_Min [OF i(1)] lt
  have "gd (lon (ds ! i), lat (ds ! i)) (target_lon, target_lat) = Min (set ?d)"
    by simp
  with i show "\<exists>i. first_min ?d i
         \<and> get_overpass_point gd ds target_lat target_lon = Inr (Fin (Min (set ?d)), time (ds ! i))"
    by auto
next
  assume "gd (1, 0) (1, 0) = 0 \<and> 0 < gd (0, 0) (1, 0) \<and> 0 \<le> gd (2, 0) (1, 0)"
  then show "get_overpass_point gd
          [\<lparr>time = t0, lat = 0, lon = 0\<rparr>, \<lparr>time = t1, lat = 0, lon = 1\<rparr>,
           \<lparr>time = t2, lat = 0, lon = 2\<rparr>] 0 1
          = Inr (Fin 0, t1)"
    by (simp add: get_overpass_point_def np_argmin_def)
qed

theorem get_overpass_point_argmin_witness:
  "planar_gd (1, 0) (1, 0) = 0 \<and> 0 < planar_gd (0, 0) (1, 0) \<and> 0 \<le> planar_gd (2, 0) (1, 0)
   \<and> get_overpass_point planar_gd
        [\<lparr>time = 10, lat = 0, lon = 0\<rparr>, \<lparr>time = 20, lat = 0, lon = 1\<rparr>,
         \<lparr>time = 30, lat = 0, lon = 2\<rparr>] 0 1
       = Inr (Fin 0, 20)"
  using get_overpass_point_argmin
    [of "[\<lparr>time = 10, lat = 0, lon = 0\<rparr>]" planar_gd 1 0 10 20 30]
  by (simp add: planar_gd_def)

subsection \<open>The track overpass\<close>

lemma strict_times_bounds:
  assumes "strict_times tr" "s \<in> set tr"
  shows "time (hd tr) \<le> time s \<and> time s \<le> time (last tr)"
proof -
  from assms(2) obtain i where i: "i < length tr" "tr ! i = s"
    by (auto simp: in_set_conv_nth)
  then have ne: "tr \<noteq> []" by auto
  have srt: "sorted (map time tr)"
    using assms(1)
    by (simp add: strict_times_def strict_sorted_iff[symmetric] sorted_wrt_mono_rel[of _ "(<)" "(\<le>)"])
  have "map time tr ! 0 \<le> map time tr ! i"
    using srt i(1) by (intro sorted_nth_mono) simp_all
  moreover have "map time tr ! i \<le> map time tr ! (length tr - 1)"
    using srt i(1) by (intro sorted_nth_mono) simp_all
  ultimately show ?thesis
    using i ne by (simp add: hd_conv_nth last_conv_nth)
qed

lemma sel_time_empty:
  assumes "strict_times a_track"
    and "a_track = [] \<or> time (last a_track) < lo \<or> hi < time (hd a_track)"
  shows "sel_time a_track lo hi = []"
proof -
  have "\<not> (lo \<le> time s \<and> time s \<le> hi)" if "s \<in> set a_track" for s
    using strict_times_bounds [OF assms(1) that] assms(2) that by auto
  then show ?thesis by (simp add: sel_time_def filter_empty_conv)
qed

lemma get_overpass_track_empty_sel:
  assumes "b_track \<noteq> []" "sel_time a_track (time (hd b_track)) (time (last b_track)) = []"
  shows "get_overpass_track gd minimize a_track b_track optimize = Inl ValueError"
  using assms by (simp add: get_overpass_track_def resample_def np_argmin_def)

text \<open>
  Claim C3, as stated, on \<open>sparse_10\<close> (times 0 to 10) and \<open>late_14_16\<close> (times 14 to
  16), whose time spans do not overlap: the call fails, but with the \<open>ValueError\<close> that
  the empty restriction runs into (lines 66 to 68), not with an \<open>EmptyOverlap\<close>
  condition.
\<close>

theorem get_overpass_track_no_overlap_counterexample:
  "get_overpass_track planar_gd (fixed_minimizer 0 True) sparse_10 late_14_16 True
     = Inl ValueError
   \<and> get_overpass_track planar_gd (fixed_minimizer 0 True) sparse_10 late_14_16 True
     \<noteq> Inl EmptyOverlap
   \<and> time (last sparse_10) < time (hd late_14_16)"
  by (simp add: get_overpass_track_def sparse_10_def late_14_16_def sel_time_def resample_def
      np_argmin_def)

text \<open>
  Claim C3, amended: for tracks \<open>a_track\<close> and \<open>b_track\<close> (\<open>b_track\<close> not empty) whose
  time spans do not overlap, \<^verbatim>\<open>get_overpass_track\<close> returns no result, with either
  setting of \<open>optimize\<close>: it raises the \<open>ValueError\<close> that the empty restriction runs
  into.
\<close>

theorem get_overpass_track_no_overlap:
  assumes "strict_times a_track" and "b_track \<noteq> []"
    and "a_track = [] \<or> time (last a_track) < time (hd b_track)
           \<or> time (last b_track) < time (hd a_track)"
  shows "get_overpass_track gd minimize a_track b_track optimize = Inl ValueError"
  by (rule get_overpass_track_empty_sel [OF assms(2) sel_time_empty [OF assms(1) assms(3)]])

theorem get_overpass_track_no_overlap_witness:
  "strict_times late_14_16 \<and> sparse_10 \<noteq> []
   \<and> time (last sparse_10) < time (hd late_14_16)
   \<and> get_overpass_track planar_gd (fixed_minimizer 0 True) late_14_16 sparse_10 False
       = Inl ValueError"
proof -
  have a: "strict_times late_14_16" by (simp add: strict_times_def late_14_16_def)
  have b: "sparse_10 \<noteq> []" by (simp add: sparse_10_def)
  have c: "time (last sparse_10) < time (hd late_14_16)"
    by (simp add: sparse_10_def late_14_16_def)
  then have d: "late_14_16 = [] \<or> time (last late_14_16) < time (hd sparse_10)
                  \<or> time (last sparse_10) < time (hd late_14_16)"
    by simp
  from a b c get_overpass_track_no_overlap [OF a b d, of planar_gd "fixed_minimizer 0 True" False]
  show ?thesis by simp
qed




subsection \<open>Interpolation\<close>

lemma np_interp_linear:
  assumes "sorted_wrt (<) (map fst ps)" "ps \<noteq> []" "fst (hd ps) \<le> x" "x \<le> fst (last ps)"
  shows "np_interp (fin_knots ps) x = Fin (linear_at ps x)"
  using assms
proof (induction ps)
  case Nil
  then show ?case by simp
next
  case (Cons p ps)
  obtain x0 y0 where p: "p = (x0, y0)" by (cases p)
  show ?case
  proof (cases ps)
    case Nil
    with Cons.prems p show ?thesis
      by (simp add: fin_knots_def linear_at_def)
  next
    case (Cons q qs)
    obtain x1 y1 where q: "q = (x1, y1)" by (cases q)
    from Cons.prems(1) p q Cons have lt01: "x0 < x1" by simp
    from Cons.prems(1) p q Cons have gt: "\<forall>r\<in>set qs. x1 < fst r" by auto
    from Cons.prems(3) p have ge0: "x0 \<le> x" by simp
    show ?thesis
    proof (cases "x = x0")
      case True
      have f1: "filter (\<lambda>r. fst r \<le> x) (p # ps) = [p]"
        using True p q Cons lt01 gt by (auto simp: filter_empty_conv)
      have f2: "hd (filter (\<lambda>r. x \<le> fst r) (p # ps)) = p"
        using True p by simp
      show ?thesis
        using True p q Cons f1 f2
        by (simp add: fin_knots_def linear_at_def del: filter.simps)
    next
      case False
      with ge0 have gt0: "x0 < x" by simp
      show ?thesis
      proof (cases "x < x1")
        case True
        have f1: "filter (\<lambda>r. fst r \<le> x) (p # ps) = [p]"
          using True gt0 p q Cons lt01 gt by (auto simp: filter_empty_conv)
        have f2: "hd (filter (\<lambda>r. x \<le> fst r) (p # ps)) = q"
          using True gt0 p q Cons by simp
        show ?thesis
          using True gt0 p q Cons lt01 unfolding linear_at_def f1 f2
          by (simp add: fin_knots_def)
      next
        case False
        then have ge1: "x1 \<le> x" by simp
        have srt: "sorted_wrt (<) (map fst ps)" using Cons.prems(1) by simp
        have ne: "ps \<noteq> []" using Cons by simp
        have hd: "fst (hd ps) \<le> x" using Cons q ge1 by simp
        have la: "x \<le> fst (last ps)" using Cons.prems(4) ne by simp
        note IH = Cons.IH [OF srt ne hd la]
        have f1: "last (filter (\<lambda>r. fst r \<le> x) (p # ps)) = last (filter (\<lambda>r. fst r \<le> x) ps)"
          using gt0 ge1 p q Cons by simp
        have f2: "filter (\<lambda>r. x \<le> fst r) (p # ps) = filter (\<lambda>r. x \<le> fst r) ps"
          using gt0 p by simp
        have "linear_at (p # ps) x = linear_at ps x"
          unfolding linear_at_def f1 f2 ..
        moreover have "np_interp (fin_knots (p # ps)) x = np_interp (fin_knots ps) x"
          using gt0 ge1 p q Cons by (simp add: fin_knots_def)
        ultimately show ?thesis using IH by simp
      qed
    qed
  qed
qed




lemma knots_sorted:
  assumes "strict_times tr"
  shows "sorted_wrt (<) (map fst (knots f tr))"
proof -
  have "map fst (knots f tr) = map real_of_int (map time tr)"
    by (simp add: knots_def comp_def)
  moreover have "sorted_wrt (<) (map real_of_int (map time tr))"
    using assms unfolding strict_times_def
    by (simp add: sorted_wrt_map)
  ultimately show ?thesis by simp
qed

lemma ds_interp_to_fdataset:
  "ds_interp (to_fdataset tr) x
     = (np_interp (fin_knots (knots lat tr)) x, np_interp (fin_knots (knots lon tr)) x)"
  by (simp add: ds_interp_def to_fdataset_def fin_knots_def knots_def comp_def)

lemma resample_in_window:
  assumes "tr \<noteq> []" "strict_times tr" "time (hd tr) \<le> t" "t \<le> time (last tr)"
  shows "ds_interp (to_fdataset tr) (real_of_int t)
           = (Fin (track_at tr lat t), Fin (track_at tr lon t))"
proof -
  have ne: "knots f tr \<noteq> []" for f using assms(1) by (simp add: knots_def)
  have h: "fst (hd (knots f tr)) \<le> real_of_int t" for f
    using assms(1,3) by (simp add: knots_def hd_map)
  have l: "real_of_int t \<le> fst (last (knots f tr))" for f
    using assms(1,4) by (simp add: knots_def last_map)
  show ?thesis
    unfolding ds_interp_to_fdataset track_at_def
    by (simp add: np_interp_linear [OF knots_sorted [OF assms(2)] ne h l])
qed

lemma coarse_dists:
  assumes "b_track \<noteq> []" "strict_times b_track"
    and "\<forall>s\<in>set a. time (hd b_track) \<le> time s \<and> time s \<le> time (last b_track)"
  shows "map (\<lambda>(s, (bla, blo)). geod_inv gd (blo, bla) (Fin (lon s), Fin (lat s)))
           (zip a (resample b_track a))
         = map Fin (map (coarse_dist gd b_track) a)"
proof -
  have "zip a (resample b_track a)
          = map (\<lambda>s. (s, ds_interp (to_fdataset b_track) (real_of_int (time s)))) a"
    by (simp add: resample_def zip_map2 zip_same_conv_map)
  also have "map (\<lambda>(s, (bla, blo)). geod_inv gd (blo, bla) (Fin (lon s), Fin (lat s))) \<dots>
          = map (\<lambda>s. Fin (coarse_dist gd b_track s)) a"
    using assms(3)
    by (auto simp: resample_in_window [OF assms(1,2)] coarse_dist_def)
  finally show ?thesis by (simp add: comp_def)
qed

lemma get_overpass_track_coarse_aux:
  assumes "b_track \<noteq> []" "strict_times b_track"
    and "a = [s \<leftarrow> a_track. time (hd b_track) \<le> time s \<and> time s \<le> time (last b_track)]"
    and "a \<noteq> []"
  shows "\<exists>i. first_min (map (coarse_dist gd b_track) a) i
           \<and> np_argmin (map (\<lambda>(s, (bla, blo)). geod_inv gd (blo, bla) (Fin (lon s), Fin (lat s)))
                 (zip a (resample b_track a))) = Inr i
           \<and> get_overpass_track gd minimize a_track b_track False
               = Inr (Fin (coarse_dist gd b_track (a ! i)), time (a ! i))"
proof -
  have sel: "sel_time a_track (time (hd b_track)) (time (last b_track)) = a"
    by (simp add: sel_time_def assms(3))
  have win: "\<forall>s\<in>set a. time (hd b_track) \<le> time s \<and> time s \<le> time (last b_track)"
    by (simp add: assms(3))
  note d = coarse_dists [OF assms(1,2) win, of gd]
  from assms(4) have "map (coarse_dist gd b_track) a \<noteq> []" by simp
  from np_argmin_first_min [OF this] obtain i where
    i: "np_argmin (map Fin (map (coarse_dist gd b_track) a)) = Inr i"
       "first_min (map (coarse_dist gd b_track) a) i"
    by blast
  from i(2) have lt: "i < length a" by (simp add: first_min_def)
  have "get_overpass_track gd minimize a_track b_track False
          = Inr (Fin (coarse_dist gd b_track (a ! i)), time (a ! i))"
    unfolding get_overpass_track_def sel Let_def d i(1)
    using assms(1) lt by simp
  with i show ?thesis unfolding d by blast
qed









subsection \<open>The refinement\<close>













text \<open>
  Claim C6, as stated, on \<open>sparse_10\<close> (samples at times 0 and 10) and \<open>short_4_6\<close>
  (samples at times 4 and 6): the time spans overlap, but no sample of the first track
  lies in the window of the second, the restriction is empty, and the call raises
  \<open>ValueError\<close> instead of returning a coarse estimate.
\<close>

theorem get_overpass_track_coarse_counterexample:
  "time (hd sparse_10) \<le> time (hd short_4_6) \<and> time (last short_4_6) \<le> time (last sparse_10)
   \<and> get_overpass_track planar_gd (fixed_minimizer 0 True) sparse_10 short_4_6 False
       = Inl ValueError"
  by (simp add: get_overpass_track_def sparse_10_def short_4_6_def sel_time_def resample_def
      np_argmin_def)

text \<open>
  Claim C6, amended: for tracks \<open>a_track\<close> and \<open>b_track\<close> (\<open>b_track\<close> not empty, its
  times strictly increasing) such that at least one sample of \<open>a_track\<close> lies in the
  window from the first to the last timestamp of \<open>b_track\<close>, \<^verbatim>\<open>get_overpass_track\<close> with
  \<open>optimize\<close> false restricts \<open>a_track\<close> to that window, takes \<open>b_track\<close> at the
  remaining timestamps by linear interpolation in time, and returns the least of the
  geodesic distances at these timestamps with the timestamp of the first sample that
  attains it.
\<close>

theorem get_overpass_track_coarse:
  assumes "b_track \<noteq> []" and "strict_times b_track"
    and "a = [s \<leftarrow> a_track. time (hd b_track) \<le> time s \<and> time s \<le> time (last b_track)]"
    and "a \<noteq> []"
  shows "\<exists>i. first_min (map (coarse_dist gd b_track) a) i
           \<and> coarse_dist gd b_track (a ! i) = Min (set (map (coarse_dist gd b_track) a))
           \<and> get_overpass_track gd minimize a_track b_track False
               = Inr (Fin (coarse_dist gd b_track (a ! i)), time (a ! i))"
proof -
  from get_overpass_track_coarse_aux [OF assms, of gd minimize] obtain i where
    i: "first_min (map (coarse_dist gd b_track) a) i"
       "get_overpass_track gd minimize a_track b_track False
               = Inr (Fin (coarse_dist gd b_track (a ! i)), time (a ! i))"
    by blast
  from i(1) have "i < length a" by (simp add: first_min_def)
  with first_min_Min [OF i(1)]
  have "coarse_dist gd b_track (a ! i) = Min (set (map (coarse_dist gd b_track) a))"
    by simp
  with i show ?thesis by blast
qed

theorem get_overpass_track_coarse_witness:
  "hover_2s \<noteq> [] \<and> strict_times hover_2s
   \<and> east_2s = [s \<leftarrow> east_2s. time (hd hover_2s) \<le> time s \<and> time s \<le> time (last hover_2s)]
   \<and> east_2s \<noteq> []
   \<and> get_overpass_track planar_gd (fixed_minimizer 0 True) east_2s hover_2s False
       = Inr (Fin 1, 0)"
proof -
  have a: "hover_2s \<noteq> []" by (simp add: hover_2s_def)
  have b: "strict_times hover_2s" by (simp add: hover_2s_def strict_times_def)
  have c: "east_2s = [s \<leftarrow> east_2s. time (hd hover_2s) \<le> time s \<and> time s \<le> time (last hover_2s)]"
    by (simp add: hover_2s_def east_2s_def)
  have d: "east_2s \<noteq> []" by (simp add: east_2s_def)
  have e: "get_overpass_track planar_gd (fixed_minimizer 0 True) east_2s hover_2s False
       = Inr (Fin 1, 0)"
    by (simp add: get_overpass_track_def east_2s_def hover_2s_def planar_gd_def
        sel_time_def resample_def to_fdataset_def ds_interp_def np_argmin_def)
  from get_overpass_track_coarse [OF a b c d, of planar_gd "fixed_minimizer 0 True"] a b c d e
  show ?thesis by simp
qed



section \<open>Properties of the circle fit\<close>

subsection \<open>Means and costs on finite data\<close>

lemma fin_list_map_Fin: "fin_list (map Fin xs) = Some xs"
  by (induction xs) simp_all

lemma np_mean_Fin: "np_mean (map Fin xs) = (if xs = [] then NaN else Fin (mean xs))"
  by (simp add: np_mean_def fin_list_map_Fin mean_def)

lemma np_std_Fin:
  assumes "xs \<noteq> []"
  shows "np_std (map Fin xs) = Fin (std_dev xs)"
  using assms by (simp add: np_std_def fin_list_map_Fin std_dev_def mean_def Let_def)

lemma np_mean_Fin_map:
  "np_mean (map (Fin \<circ> f) xs) = (if xs = [] then NaN else Fin (mean (map f xs)))"
  using np_mean_Fin [of "map f xs"] by simp

lemma np_std_Fin_map:
  assumes "xs \<noteq> []"
  shows "np_std (map (Fin \<circ> f) xs) = Fin (std_dev (map f xs))"
  using np_std_Fin [of "map f xs"] assms by simp

lemma center_dists_Fin:
  "center_dists gd pts (Fin clat, Fin clon)
     = map Fin (map (\<lambda>p. gd (snd p, fst p) (clon, clat)) pts)"
  by (simp add: center_dists_def split_beta)

lemma center_dists_NaN:
  assumes "pts \<noteq> []" "\<not> (is_fin clat \<and> is_fin clon)"
  shows "fin_list (center_dists gd pts (clat, clon)) = None"
proof -
  from assms(1) obtain p ps where p: "pts = p # ps" by (cases pts) auto
  obtain la lo where q: "p = (la, lo)" by (cases p)
  from assms(2) have "geod_inv gd (Fin lo, Fin la) (clon, clat) = NaN"
    by (cases clat; cases clon) simp_all
  then show ?thesis by (simp add: center_dists_def p q)
qed

lemma cost_is_std_cost:
  assumes "pts \<noteq> []"
  shows "(\<lambda>x. np_std (center_dists gd pts x)) = std_cost gd pts"
proof
  fix x :: "pyfloat \<times> pyfloat"
  obtain clat clon where x: "x = (clat, clon)" by (cases x)
  show "np_std (center_dists gd pts x) = std_cost gd pts x"
  proof (cases "is_fin clat \<and> is_fin clon")
    case True
    then obtain a b where "clat = Fin a" "clon = Fin b"
      by (cases clat; cases clon) simp_all
    with assms show ?thesis
      by (simp add: x center_dists_Fin np_std_Fin_map std_cost_def)
  next
    case False
    from center_dists_NaN [OF assms False, of gd] have "np_std (center_dists gd pts x) = NaN"
      by (simp add: np_std_def x)
    moreover from False have "std_cost gd pts x = NaN"
      by (cases clat; cases clon) (simp_all add: std_cost_def x)
    ultimately show ?thesis by simp
  qed
qed

lemma fit_circle_start:
  assumes "pts \<noteq> []"
  shows "fit_circle gd minimize pts =
           (case opt_x (minimize (std_cost gd pts)
                          (Fin (mean (map fst pts)), Fin (mean (map snd pts)))) of
              (clat, clon) \<Rightarrow> (clat, clon, np_mean (center_dists gd pts (clat, clon))))"
proof -
  have la: "map (\<lambda>(la, lo). Fin la) pts = map Fin (map fst pts)"
    by (simp add: split_beta)
  have lo: "map (\<lambda>(la, lo). Fin lo) pts = map Fin (map snd pts)"
    by (simp add: split_beta)
  show ?thesis
    unfolding fit_circle_def la lo np_mean_Fin cost_is_std_cost [OF assms] Let_def
    using assms by (simp add: split_beta)
qed

lemma fit_circle_spec:
  assumes "pts \<noteq> []"
    and "opt_x (minimize (std_cost gd pts) (Fin (mean (map fst pts)), Fin (mean (map snd pts))))
           = (Fin clat, Fin clon)"
  shows "fit_circle gd minimize pts
           = (Fin clat, Fin clon, Fin (mean (map (\<lambda>p. gd (snd p, fst p) (clon, clat)) pts)))"
  using assms by (simp add: fit_circle_start center_dists_Fin np_mean_Fin_map)

lemma fit_circle_fin:
  assumes "pts \<noteq> []" "finite_minimizer minimize"
  shows "\<exists>c. fit_circle gd minimize pts = fin_circle c"
proof -
  from assms(2) obtain u v where
    "opt_x (minimize (std_cost gd pts) (Fin (mean (map fst pts)), Fin (mean (map snd pts))))
       = (Fin u, Fin v)"
    unfolding finite_minimizer_def by blast
  then have "fit_circle gd minimize pts
          = (Fin u, Fin v, Fin (mean (map (\<lambda>p. gd (snd p, fst p) (v, u)) pts)))"
    by (rule fit_circle_spec [OF assms(1)])
  then have "fit_circle gd minimize pts
          = fin_circle (u, v, mean (map (\<lambda>p. gd (snd p, fst p) (v, u)) pts))"
    by (simp add: fin_circle_def)
  then show ?thesis ..
qed

subsection \<open>The trial loop\<close>

lemma draws_valid:
  assumes "choice_ok choice" "3 \<le> m"
  shows "length (draws choice g m k) = k
         \<and> (\<forall>idxs\<in>set (draws choice g m k).
               length idxs = 3 \<and> distinct idxs \<and> (\<forall>i\<in>set idxs. i < m))"
proof (induction k arbitrary: g)
  case 0
  show ?case by simp
next
  case (Suc k)
  from assms have "length (fst (choice g m)) = 3 \<and> distinct (fst (choice g m))
        \<and> (\<forall>i\<in>set (fst (choice g m)). i < m)"
    unfolding choice_ok_def by blast
  with Suc [of "snd (choice g m)"] show ?case by simp
qed

lemma trials_draws:
  assumes "choice_ok choice" "3 \<le> length pts"
  shows "fst (trials gd minimize choice pts distance_range k g acc)
           = Inr (acc @ map (trial_of gd minimize pts distance_range)
                          (draws choice g (length pts) k))"
proof (induction k arbitrary: g acc)
  case 0
  show ?case by simp
next
  case (Suc k)
  from assms have ok: "\<forall>i\<in>set (fst (choice g (length pts))). i < length pts"
    unfolding choice_ok_def by blast
  have ch: "rng_choice choice g (length pts)
              = (Inr (fst (choice g (length pts))), snd (choice g (length pts)))"
    using assms(2) by (simp add: rng_choice_def split_beta)
  have tk: "take_idxs pts (fst (choice g (length pts)))
              = Inr (map ((!) pts) (fst (choice g (length pts))))"
    using ok by (simp add: take_idxs_def list_all_iff)
  show ?case
    by (simp add: ch tk Suc trial_of_def Let_def split_beta)
qed


lemma is_inlier_fun:
  "is_inlier gd distance_range (clat, clon, radius)
     = (\<lambda>p. \<bar>radius - gd (snd p, fst p) (clon, clat)\<bar> \<le> distance_range)"
  by (rule ext) (simp add: is_inlier_def)

lemma count_inliers:
  "length (filter (inlier distance_range (Fin radius)) (center_dists gd pts (Fin clat, Fin clon)))
     = inlier_count gd pts distance_range (clat, clon, radius)"
proof -
  have "filter (inlier distance_range (Fin radius)) (center_dists gd pts (Fin clat, Fin clon))
          = map (\<lambda>p. Fin (gd (snd p, fst p) (clon, clat)))
              (filter (is_inlier gd distance_range (clat, clon, radius)) pts)"
    by (simp add: center_dists_Fin filter_map comp_def is_inlier_fun)
  then show ?thesis
    by (simp add: inlier_count_def length_filter_conv_card)
qed

lemma mask_inliers:
  "map fst (filter snd (zip pts (map (inlier distance_range (Fin radius))
                                   (center_dists gd pts (Fin clat, Fin clon)))))
     = filter (is_inlier gd distance_range (clat, clon, radius)) pts"
proof -
  have "zip pts (map (inlier distance_range (Fin radius)) (center_dists gd pts (Fin clat, Fin clon)))
          = map (\<lambda>p. (p, is_inlier gd distance_range (clat, clon, radius) p)) pts"
    by (simp add: center_dists_Fin zip_map2 zip_same_conv_map comp_def is_inlier_def)
  then show ?thesis
    by (simp add: filter_map comp_def)
qed

lemma trial_of_fin:
  assumes "fit_circle gd minimize (map ((!) pts) idxs) = fin_circle c"
  shows "trial_of gd minimize pts distance_range idxs
           = to_trial (inlier_count gd pts distance_range c, c)"
proof -
  obtain clat clon radius where c: "c = (clat, clon, radius)" by (cases c)
  show ?thesis
    by (simp add: trial_of_def assms c fin_circle_def to_trial_def count_inliers)
qed

subsection \<open>The sort of the recorded tuples\<close>

lemma tuple_lt_to_trial:
  "tuple_lt (to_trial (n1, a1, b1, r1)) (to_trial (n2, a2, b2, r2))
     = (n1 < n2 \<or> (n1 = n2 \<and> (a1 < a2 \<or> (a1 = a2 \<and> (b1 < b2 \<or> (b1 = b2 \<and> r1 < r2))))))"
  by (auto simp: to_trial_def)

lemma tuple_lt_irrefl: "\<not> tuple_lt (to_trial s) (to_trial s)"
  by (cases s) (simp add: tuple_lt_to_trial)

lemma tuple_lt_trans:
  assumes "tuple_lt (to_trial s) (to_trial u)" "tuple_lt (to_trial u) (to_trial w)"
  shows "tuple_lt (to_trial s) (to_trial w)"
proof -
  obtain n1 a1 b1 r1 where s: "s = (n1, a1, b1, r1)" by (cases s)
  obtain n2 a2 b2 r2 where u: "u = (n2, a2, b2, r2)" by (cases u)
  obtain n3 a3 b3 r3 where w: "w = (n3, a3, b3, r3)" by (cases w)
  from assms show ?thesis
    unfolding s u w tuple_lt_to_trial by linarith
qed

lemma not_tuple_lt_lex_le:
  assumes "\<not> tuple_lt (to_trial w) (to_trial c)"
  shows "lex_le c w"
proof -
  obtain n1 a1 b1 r1 where c: "c = (n1, a1, b1, r1)" by (cases c)
  obtain n2 a2 b2 r2 where w: "w = (n2, a2, b2, r2)" by (cases w)
  from assms show ?thesis
    unfolding c w tuple_lt_to_trial lex_le_def by auto
qed

lemma py_insort_set: "set (py_insort x ys) = insert x (set ys)"
  by (induction ys) auto

lemma py_insort_ne: "py_insort x ys \<noteq> []"
  by (cases ys) simp_all

lemma py_insort_last:
  "last (py_insort x ys) = (if \<exists>y\<in>set ys. tuple_lt x y then last ys else x)"
proof (induction ys)
  case Nil
  show ?case by simp
next
  case (Cons y ys)
  show ?case
  proof (cases "tuple_lt x y")
    case True
    then show ?thesis by simp
  next
    case False
    then have "last (py_insort x (y # ys)) = last (py_insort x ys)"
      by (simp add: py_insort_ne)
    with Cons False show ?thesis by auto
  qed
qed

lemma py_insort_last_is_max:
  assumes "last_is_max (map to_trial cs)"
  shows "last_is_max (py_insort (to_trial c) (map to_trial cs))"
proof (cases "\<exists>y\<in>set (map to_trial cs). tuple_lt (to_trial c) y")
  case True
  then obtain d where d: "d \<in> set cs" "tuple_lt (to_trial c) (to_trial d)" by auto
  then have ne: "cs \<noteq> []" by auto
  then have "last (map to_trial cs) = to_trial (last cs)" by (simp add: last_map)
  with assms ne have mx: "\<forall>e\<in>set cs. \<not> tuple_lt (to_trial (last cs)) (to_trial e)"
    by (simp add: last_is_max_def)
  have la: "last (py_insort (to_trial c) (map to_trial cs)) = to_trial (last cs)"
    using True ne by (simp add: py_insort_last last_map del: set_map)
  have "\<not> tuple_lt (to_trial (last cs)) (to_trial c)"
  proof
    assume "tuple_lt (to_trial (last cs)) (to_trial c)"
    from tuple_lt_trans [OF this d(2)] mx d(1) show False by blast
  qed
  with mx show ?thesis
    by (auto simp: last_is_max_def la py_insort_set)
next
  case False
  then have la: "last (py_insort (to_trial c) (map to_trial cs)) = to_trial c"
    by (simp add: py_insort_last del: set_map)
  from False tuple_lt_irrefl [of c] show ?thesis
    unfolding last_is_max_def la py_insort_set by blast
qed

lemma py_insort_to_trial:
  "\<exists>ds. py_insort (to_trial c) (map to_trial cs) = map to_trial ds \<and> set ds = insert c (set cs)"
proof (induction cs)
  case Nil
  have "py_insort (to_trial c) (map to_trial []) = map to_trial [c]" by simp
  then show ?case by (metis list.simps(15) set_empty)
next
  case (Cons d cs)
  then obtain ds where ds: "py_insort (to_trial c) (map to_trial cs) = map to_trial ds"
     "set ds = insert c (set cs)" by blast
  show ?case
  proof (cases "tuple_lt (to_trial c) (to_trial d)")
    case True
    then have "py_insort (to_trial c) (map to_trial (d # cs)) = map to_trial (c # d # cs)"
      by simp
    then show ?thesis by (metis list.simps(15))
  next
    case False
    then have "py_insort (to_trial c) (map to_trial (d # cs)) = map to_trial (d # ds)"
      by (simp add: ds(1))
    moreover have "set (d # ds) = insert c (set (d # cs))" using ds(2) by auto
    ultimately show ?thesis by blast
  qed
qed

lemma foldl_insort_max:
  assumes "last_is_max (map to_trial acc)"
  shows "\<exists>ds. foldl (\<lambda>acc x. py_insort x acc) (map to_trial acc) (map to_trial cs) = map to_trial ds
              \<and> set ds = set acc \<union> set cs \<and> last_is_max (map to_trial ds)"
  using assms
proof (induction cs arbitrary: acc)
  case Nil
  then show ?case by auto
next
  case (Cons c cs)
  from py_insort_to_trial [of c acc] obtain ds where
    ds: "py_insort (to_trial c) (map to_trial acc) = map to_trial ds" "set ds = insert c (set acc)"
    by blast
  from py_insort_last_is_max [OF Cons.prems, of c] ds(1)
  have "last_is_max (map to_trial ds)" by simp
  from Cons.IH [OF this] obtain es where
    es: "foldl (\<lambda>acc x. py_insort x acc) (map to_trial ds) (map to_trial cs) = map to_trial es"
        "set es = set ds \<union> set cs" "last_is_max (map to_trial es)"
    by blast
  have "foldl (\<lambda>acc x. py_insort x acc) (map to_trial acc) (map to_trial (c # cs)) = map to_trial es"
    by (simp add: ds(1) es(1))
  moreover have "set es = set acc \<union> set (c # cs)" using es(2) ds(2) by auto
  ultimately show ?case using es(3) by blast
qed

lemma py_sorted_last:
  assumes "cs \<noteq> []"
  shows "py_sorted (map to_trial cs) \<noteq> []
         \<and> (\<exists>w\<in>set cs. last (py_sorted (map to_trial cs)) = to_trial w
                \<and> (\<forall>c\<in>set cs. lex_le c w))"
proof -
  have "last_is_max (map to_trial [])" by (simp add: last_is_max_def)
  from foldl_insort_max [OF this, of cs] obtain ds where
    ds: "py_sorted (map to_trial cs) = map to_trial ds" "set ds = set cs"
        "last_is_max (map to_trial ds)"
    by (auto simp: py_sorted_def)
  from ds(2) assms have ne: "ds \<noteq> []" by auto
  then have la: "last (py_sorted (map to_trial cs)) = to_trial (last ds)"
    by (simp add: ds(1) last_map)
  from ne ds(2) have mem: "last ds \<in> set cs" by (metis last_in_set)
  from ds(3) ne have "\<forall>c\<in>set ds. \<not> tuple_lt (to_trial (last ds)) (to_trial c)"
    by (simp add: last_is_max_def last_map)
  with ds(2) have "\<forall>c\<in>set cs. lex_le c (last ds)"
    by (auto intro: not_tuple_lt_lex_le)
  with la mem ne ds(1) show ?thesis by auto
qed


subsection \<open>The whole procedure\<close>

lemma ransac_run_sorted:
  assumes "fst (trials gd minimize choice pts distance_range (nat n) (default_rng 12345) [])
             = Inr samples"
    and "py_sorted samples \<noteq> []"
    and "last (py_sorted samples) = to_trial (k, clat, clon, radius)"
  shows "ransac_fit_circle gd minimize default_rng choice pts distance_range n
           = Inr (fit_circle gd minimize
                    (filter (is_inlier gd distance_range (clat, clon, radius)) pts))"
proof -
  obtain g where "trials gd minimize choice pts distance_range (nat n) (default_rng 12345) []
                    = (Inr samples, g)"
    using assms(1) by (cases "trials gd minimize choice pts distance_range (nat n) (default_rng 12345) []") simp
  then show ?thesis
    using assms(2,3)
    by (simp add: ransac_fit_circle_def ransac_run_def to_trial_def mask_inliers)
qed

lemma ransac_trials_exist:
  assumes ok: "choice_ok choice" and fm: "finite_minimizer minimize"
    and len: "3 \<le> length pts" and n: "1 \<le> n"
  shows "\<exists>cs w.
           length cs = nat n
         \<and> (\<forall>k < nat n.
               length (draws choice (default_rng 12345) (length pts) (nat n) ! k) = 3
             \<and> distinct (draws choice (default_rng 12345) (length pts) (nat n) ! k)
             \<and> (\<forall>i\<in>set (draws choice (default_rng 12345) (length pts) (nat n) ! k). i < length pts)
             \<and> fit_circle gd minimize
                  (map ((!) pts) (draws choice (default_rng 12345) (length pts) (nat n) ! k))
                 = fin_circle (snd (cs ! k))
             \<and> fst (cs ! k) = inlier_count gd pts distance_range (snd (cs ! k)))
         \<and> w \<in> set cs \<and> (\<forall>c\<in>set cs. lex_le c w)
         \<and> ransac_fit_circle gd minimize default_rng choice pts distance_range n
             = Inr (fit_circle gd minimize (filter (is_inlier gd distance_range (snd w)) pts))"
proof -
  let ?D = "draws choice (default_rng 12345) (length pts) (nat n)"
  define circ where "circ = (\<lambda>idxs. SOME c. fit_circle gd minimize (map ((!) pts) idxs) = fin_circle c)"
  define cs where "cs = map (\<lambda>idxs. (inlier_count gd pts distance_range (circ idxs), circ idxs)) ?D"
  from draws_valid [OF ok len, of "default_rng 12345" "nat n"]
  have lenD: "length ?D = nat n"
    and valid: "\<forall>idxs\<in>set ?D. length idxs = 3 \<and> distinct idxs \<and> (\<forall>i\<in>set idxs. i < length pts)"
    by simp_all
  have circ: "fit_circle gd minimize (map ((!) pts) idxs) = fin_circle (circ idxs)"
    if "idxs \<in> set ?D" for idxs
  proof -
    from valid that have "length idxs = 3" by blast
    then have "map ((!) pts) idxs \<noteq> []" by auto
    from fit_circle_fin [OF this fm, of gd]
    show ?thesis unfolding circ_def by (rule someI_ex)
  qed
  have samples: "map (trial_of gd minimize pts distance_range) ?D = map to_trial cs"
    unfolding cs_def using circ by (simp add: trial_of_fin)
  have tr: "fst (trials gd minimize choice pts distance_range (nat n) (default_rng 12345) [])
              = Inr (map to_trial cs)"
    using trials_draws [OF ok len, of gd minimize distance_range "nat n" "default_rng 12345" "[]"]
    by (simp add: samples)
  have lcs: "length cs = nat n" by (simp add: cs_def lenD)
  with n have "cs \<noteq> []" by auto
  from py_sorted_last [OF this] obtain w where
    w: "py_sorted (map to_trial cs) \<noteq> []" "w \<in> set cs"
       "last (py_sorted (map to_trial cs)) = to_trial w" "\<forall>c\<in>set cs. lex_le c w"
    by blast
  obtain m clat clon radius where weq: "w = (m, clat, clon, radius)" by (cases w)
  have "ransac_fit_circle gd minimize default_rng choice pts distance_range n
          = Inr (fit_circle gd minimize
                   (filter (is_inlier gd distance_range (clat, clon, radius)) pts))"
    using tr w(1) w(3) [unfolded weq] by (rule ransac_run_sorted)
  then have res: "ransac_fit_circle gd minimize default_rng choice pts distance_range n
             = Inr (fit_circle gd minimize (filter (is_inlier gd distance_range (snd w)) pts))"
    by (simp add: weq)
  have each: "length (?D ! k) = 3 \<and> distinct (?D ! k) \<and> (\<forall>i\<in>set (?D ! k). i < length pts)
             \<and> fit_circle gd minimize (map ((!) pts) (?D ! k)) = fin_circle (snd (cs ! k))
             \<and> fst (cs ! k) = inlier_count gd pts distance_range (snd (cs ! k))"
    if "k < nat n" for k
  proof -
    from that lenD have mem: "?D ! k \<in> set ?D" by simp
    from that lenD have "cs ! k = (inlier_count gd pts distance_range (circ (?D ! k)), circ (?D ! k))"
      by (simp add: cs_def)
    with valid mem circ [OF mem] show ?thesis by simp
  qed
  from lcs each w(2,4) res show ?thesis by blast
qed


lemma window_choice_ok: "choice_ok window_choice"
proof -
  have "g mod (m - 2) + 2 < m" if "3 \<le> m" for g m :: nat
  proof -
    from that have "0 < m - 2" by simp
    then have "g mod (m - 2) < m - 2" by simp
    with that show ?thesis by linarith
  qed
  then show ?thesis
    by (auto simp: choice_ok_def window_choice_def intro: less_trans [OF _ ] dest: add_lessD1)
qed

lemma start_minimizer_finite: "finite_minimizer start_minimizer"
  by (simp add: finite_minimizer_def start_minimizer_def)

lemma trials_errors:
  assumes "fst (trials gd minimize choice pts distance_range k g acc) = Inl e"
  shows "e = ValueError \<or> e = IndexError"
  using assms
proof (induction k arbitrary: g acc)
  case 0
  then show ?case by simp
next
  case (Suc k)
  then show ?case
    by (auto simp: rng_choice_def take_idxs_def Let_def split_beta
             split: if_splits prod.splits sum.splits)
qed

lemma ransac_errors:
  assumes "ransac_fit_circle gd minimize default_rng choice pts distance_range n = Inl e"
  shows "e = ValueError \<or> e = IndexError"
proof (cases "fst (trials gd minimize choice pts distance_range (nat n) (default_rng 12345) [])")
  case (Inl e')
  with assms have "e = e'"
    by (simp add: ransac_fit_circle_def ransac_run_def split_beta split: prod.splits sum.splits)
  with trials_errors [OF Inl] show ?thesis by simp
next
  case (Inr samples)
  with assms show ?thesis
    by (auto simp: ransac_fit_circle_def ransac_run_def split_beta Let_def
             split: prod.splits sum.splits if_splits)
qed

lemma no_inlier_negative:
  assumes "distance_range < 0"
  shows "filter (is_inlier gd distance_range c) pts = []"
proof -
  obtain clat clon radius where c: "c = (clat, clon, radius)" by (cases c)
  have "\<not> is_inlier gd distance_range c p" for p
    using assms by (simp add: is_inlier_def c)
  then show ?thesis by (simp add: filter_empty_conv)
qed

lemmas stand_ins = counter_rng_def window_choice_def corner_points_def five_points_def
  rng_choice_def take_idxs_def fit_circle_def np_mean_def start_minimizer_def center_dists_def
  planar_gd_def py_sorted_def Let_def

lemma nat_1_Suc: "nat 1 = Suc 0"
  by simp

lemma nat_2_Suc: "nat 2 = Suc (Suc 0)"
  by simp

lemma ransac_five_points:
  "ransac_fit_circle planar_gd start_minimizer counter_rng window_choice five_points 1 2
     = Inr (Fin 2, Fin 2, Fin (8 / 3))"
  apply (simp only: ransac_fit_circle_def ransac_run_def nat_2_Suc)
  apply (simp add: stand_ins)
  done

lemma ransac_corner_points_half:
  "ransac_fit_circle planar_gd start_minimizer counter_rng window_choice corner_points (1 / 2) 1
     = Inr (Fin (3 / 2), Fin (3 / 2), Fin 3)"
  apply (simp only: ransac_fit_circle_def ransac_run_def nat_1_Suc)
  apply (simp add: stand_ins)
  done

lemma ransac_corner_points_negative:
  "ransac_fit_circle planar_gd start_minimizer counter_rng window_choice corner_points (- 1) 1
     = Inr (NaN, NaN, NaN)"
  apply (simp only: ransac_fit_circle_def ransac_run_def nat_1_Suc)
  apply (simp add: stand_ins)
  done

lemma fit_circle_corner_points:
  "fit_circle planar_gd start_minimizer corner_points = (Fin 1, Fin 1, Fin (8 / 3))"
  by (simp add: stand_ins)

text \<open>
  Claim C8: on at least 3 points, \<^verbatim>\<open>fit_circle\<close> starts the minimization at the
  arithmetic means of the latitudes and of the longitudes, gives it as cost the standard
  deviation of the geodesic distances from the candidate centre to all points, and
  returns the centre at which the minimization ends (here a finite one, \<open>(clat, clon)\<close>)
  with the mean geodesic distance from that centre to all points as radius.
\<close>

theorem fit_circle_mean_radius:
  assumes "3 \<le> length pts"
    and "opt_x (minimize (std_cost gd pts) (Fin (mean (map fst pts)), Fin (mean (map snd pts))))
           = (Fin clat, Fin clon)"
  shows "fit_circle gd minimize pts
           = (Fin clat, Fin clon, Fin (mean (map (\<lambda>p. gd (snd p, fst p) (clon, clat)) pts)))"
proof -
  from assms(1) have "pts \<noteq> []" by auto
  from this assms(2) show ?thesis by (rule fit_circle_spec)
qed

theorem fit_circle_mean_radius_witness:
  "3 \<le> length corner_points
   \<and> opt_x (start_minimizer (std_cost planar_gd corner_points)
             (Fin (mean (map fst corner_points)), Fin (mean (map snd corner_points))))
       = (Fin 1, Fin 1)
   \<and> fit_circle planar_gd start_minimizer corner_points = (Fin 1, Fin 1, Fin (8 / 3))"
proof -
  have a: "3 \<le> length corner_points" by (simp add: corner_points_def)
  have b: "opt_x (start_minimizer (std_cost planar_gd corner_points)
             (Fin (mean (map fst corner_points)), Fin (mean (map snd corner_points))))
       = (Fin 1, Fin 1)"
    by (simp add: start_minimizer_def corner_points_def mean_def)
  from fit_circle_mean_radius [where minimize = start_minimizer and gd = planar_gd
         and pts = corner_points and clat = 1 and clon = 1, OF a b] a b
  show ?thesis
    by (simp add: corner_points_def mean_def planar_gd_def)
qed

text \<open>
  Claim C1: for at least 3 points and a trial count \<open>n \<ge> 1\<close> (with a \<open>choice\<close> that
  returns three distinct indices in range and a minimization that ends at finite points),
  \<^verbatim>\<open>ransac_fit_circle\<close> records exactly \<open>n\<close> trials; trial \<open>k\<close> draws the \<open>k\<close>-th index
  list of the generator seeded with 12345, three distinct indices, and its circle is the
  deterministic fit of exactly these three points; its score is the number of points,
  among all, within \<open>distance_range\<close> of the circle; the winning trial \<open>w\<close> is a recorded
  one that no recorded one exceeds in the lexicographic order; and the result is the
  deterministic fit of exactly the points that are inliers of the winning circle.
\<close>

theorem ransac_fit_circle_trials:
  assumes "choice_ok choice" and "finite_minimizer minimize"
    and "3 \<le> length pts" and "1 \<le> n"
  shows "\<exists>cs w.
           length cs = nat n
         \<and> (\<forall>k < nat n.
               length (draws choice (default_rng 12345) (length pts) (nat n) ! k) = 3
             \<and> distinct (draws choice (default_rng 12345) (length pts) (nat n) ! k)
             \<and> (\<forall>i\<in>set (draws choice (default_rng 12345) (length pts) (nat n) ! k). i < length pts)
             \<and> fit_circle gd minimize
                  (map ((!) pts) (draws choice (default_rng 12345) (length pts) (nat n) ! k))
                 = fin_circle (snd (cs ! k))
             \<and> fst (cs ! k) = inlier_count gd pts distance_range (snd (cs ! k)))
         \<and> w \<in> set cs \<and> (\<forall>c\<in>set cs. lex_le c w)
         \<and> ransac_fit_circle gd minimize default_rng choice pts distance_range n
             = Inr (fit_circle gd minimize (filter (is_inlier gd distance_range (snd w)) pts))"
  using assms by (rule ransac_trials_exist)

theorem ransac_fit_circle_trials_witness:
  "choice_ok window_choice \<and> finite_minimizer start_minimizer
   \<and> 3 \<le> length five_points \<and> (1 :: int) \<le> 2
   \<and> ransac_fit_circle planar_gd start_minimizer counter_rng window_choice five_points 1 2
       = Inr (Fin 2, Fin 2, Fin (8 / 3))"
proof -
  have c: "3 \<le> length five_points" by (simp add: five_points_def)
  have d: "(1 :: int) \<le> 2" by simp
  from ransac_fit_circle_trials [OF window_choice_ok start_minimizer_finite c d,
         where gd = planar_gd and default_rng = counter_rng and distance_range = 1]
       window_choice_ok start_minimizer_finite c ransac_five_points
  show ?thesis by simp
qed

text \<open>
  Claim C9, as stated, on the three points \<open>(0,0)\<close>, \<open>(0,3)\<close>, \<open>(3,0)\<close> with one trial:
  with \<open>distance_range = 1/2\<close> the winning circle (centre \<open>(1,1)\<close>, radius \<open>8/3\<close>) has
  two inliers and the call returns the fit of these two points; with
  \<open>distance_range = -1\<close> it has none and the call returns the fit of no points, all
  \<open>NaN\<close>. Neither call signals \<open>FittingFailed\<close>.
\<close>

theorem ransac_few_inliers_counterexample:
  "fit_circle planar_gd start_minimizer corner_points = (Fin 1, Fin 1, Fin (8 / 3))
   \<and> length (filter (is_inlier planar_gd (1 / 2) (1, 1, 8 / 3)) corner_points) = 2
   \<and> ransac_fit_circle planar_gd start_minimizer counter_rng window_choice corner_points (1 / 2) 1
       = Inr (Fin (3 / 2), Fin (3 / 2), Fin 3)
   \<and> length (filter (is_inlier planar_gd (- 1) (1, 1, 8 / 3)) corner_points) = 0
   \<and> ransac_fit_circle planar_gd start_minimizer counter_rng window_choice corner_points (- 1) 1
       = Inr (NaN, NaN, NaN)
   \<and> ransac_fit_circle planar_gd start_minimizer counter_rng window_choice corner_points (1 / 2) 1
       \<noteq> Inl FittingFailed"
  by (simp add: fit_circle_corner_points ransac_corner_points_half ransac_corner_points_negative)
     (simp add: is_inlier_def corner_points_def planar_gd_def)

text \<open>
  Claim C9, amended: \<^verbatim>\<open>ransac_fit_circle\<close> never signals \<open>FittingFailed\<close>; it has no test
  on the number of inliers and returns the fit of the inliers of the winning circle,
  however few. In particular, with a negative \<open>distance_range\<close> no point is an inlier,
  and (for at least 3 points and \<open>n \<ge> 1\<close>) the call returns the fit of no points.
\<close>

theorem ransac_never_fitting_failed:
  "ransac_fit_circle gd minimize default_rng choice pts distance_range n \<noteq> Inl FittingFailed
   \<and> (choice_ok choice \<and> finite_minimizer minimize \<and> 3 \<le> length pts \<and> 1 \<le> n
        \<and> distance_range < 0
      \<longrightarrow> ransac_fit_circle gd minimize default_rng choice pts distance_range n
            = Inr (fit_circle gd minimize []))"
proof (intro conjI impI)
  show "ransac_fit_circle gd minimize default_rng choice pts distance_range n \<noteq> Inl FittingFailed"
    using ransac_errors [of gd minimize default_rng choice pts distance_range n FittingFailed]
    by auto
next
  assume h: "choice_ok choice \<and> finite_minimizer minimize \<and> 3 \<le> length pts \<and> 1 \<le> n
        \<and> distance_range < 0"
  then have ok: "choice_ok choice" and fm: "finite_minimizer minimize"
    and len: "3 \<le> length pts" and n: "1 \<le> n" and neg: "distance_range < 0"
    by simp_all
  from ransac_trials_exist [OF ok fm len n, where gd = gd and default_rng = default_rng
         and distance_range = distance_range] obtain w :: "nat \<times> rcircle" where
    "ransac_fit_circle gd minimize default_rng choice pts distance_range n
       = Inr (fit_circle gd minimize (filter (is_inlier gd distance_range (snd w)) pts))"
    by blast
  then show "ransac_fit_circle gd minimize default_rng choice pts distance_range n
            = Inr (fit_circle gd minimize [])"
    by (simp add: no_inlier_negative [OF neg])
qed

theorem ransac_never_fitting_failed_witness:
  "choice_ok window_choice \<and> finite_minimizer start_minimizer
   \<and> 3 \<le> length corner_points \<and> (1 :: int) \<le> 1 \<and> (- 1 :: real) < 0
   \<and> ransac_fit_circle planar_gd start_minimizer counter_rng window_choice corner_points (- 1) 1
       = Inr (fit_circle planar_gd start_minimizer [])
   \<and> fit_circle planar_gd start_minimizer [] = (NaN, NaN, NaN)"
proof -
  have c: "3 \<le> length corner_points" by (simp add: corner_points_def)
  have e: "fit_circle planar_gd start_minimizer [] = (NaN, NaN, NaN)"
    by (simp add: stand_ins)
  from ransac_never_fitting_failed [where gd = planar_gd and minimize = start_minimizer
         and default_rng = counter_rng and choice = window_choice and pts = corner_points
         and distance_range = "- 1" and n = 1]
       window_choice_ok start_minimizer_finite c e
  show ?thesis by simp
qed

subsection \<open>The generator in the store\<close>

text \<open>
  The trial loop on the store touches only the object at the address it is given, and
  there it does what the loop on a generator value does.
\<close>

lemma store_trials_pure:
  assumes "rng < length st"
  shows "store_trials gd minimize choice pts distance_range k rng st acc
           = (fst (trials gd minimize choice pts distance_range k (st ! rng) acc),
              st[rng := snd (trials gd minimize choice pts distance_range k (st ! rng) acc)])"
  using assms
proof (induction k arbitrary: st acc)
  case 0
  then show ?case by simp
next
  case (Suc k)
  show ?case
  proof (cases "length pts < 3")
    case True
    then show ?thesis by (simp add: store_choice_def rng_choice_def)
  next
    case False
    obtain idxs g' where ch: "choice (st ! rng) (length pts) = (idxs, g')"
      by (cases "choice (st ! rng) (length pts)")
    from Suc.prems have lt: "rng < length (st[rng := g'])" by simp
    from Suc.prems have nth: "st[rng := g'] ! rng = g'" by simp
    show ?thesis
    proof (cases "take_idxs pts idxs")
      case (Inl e)
      with False ch show ?thesis by (simp add: store_choice_def rng_choice_def)
    next
      case (Inr sub)
      obtain clat clon radius where fc: "fit_circle gd minimize sub = (clat, clon, radius)"
        by (cases "fit_circle gd minimize sub")
      from False ch Inr fc show ?thesis
        by (simp add: store_choice_def rng_choice_def Suc.IH [OF lt] nth Let_def)
    qed
  qed
qed

lemma ransac_store_pure:
  "ransac_fit_circle_store gd minimize default_rng choice st pts distance_range n
     = (ransac_fit_circle gd minimize default_rng choice pts distance_range n,
        st @ [snd (ransac_run gd minimize default_rng choice pts distance_range n)])"
proof -
  let ?t = "trials gd minimize choice pts distance_range (nat n) (default_rng 12345) []"
  have tr: "store_trials gd minimize choice pts distance_range (nat n) (length st)
              (st @ [default_rng 12345]) []
            = (fst ?t, st @ [snd ?t])"
    using store_trials_pure [of "length st" "st @ [default_rng 12345]" gd minimize choice pts
            distance_range "nat n" "[]"]
    by simp
  obtain r g where t: "?t = (r, g)" by (cases ?t)
  show ?thesis
    unfolding ransac_fit_circle_store_def new_generator_def ransac_fit_circle_def ransac_run_def
    by (cases r) (simp_all add: tr t Let_def split_beta)
qed

text \<open>
  Claim C7: \<^verbatim>\<open>ransac_fit_circle\<close> is deterministic. The result of a call does not depend
  on the store it finds: the call creates its generator itself, seeded with 12345, and
  draws from that object only. So the second of two successive calls with identical
  inputs, which finds the generator the first has left, returns what the first returned;
  the call leaves the objects it found as they were; and its result is that of the
  procedure with the generator threaded as a value.
\<close>

theorem ransac_fit_circle_deterministic:
  "fst (ransac_fit_circle_store gd minimize default_rng choice st pts distance_range n)
     = fst (ransac_fit_circle_store gd minimize default_rng choice st' pts distance_range n)
   \<and> fst (ransac_fit_circle_store gd minimize default_rng choice
            (snd (ransac_fit_circle_store gd minimize default_rng choice st pts distance_range n))
            pts distance_range n)
     = fst (ransac_fit_circle_store gd minimize default_rng choice st pts distance_range n)
   \<and> take (length st)
        (snd (ransac_fit_circle_store gd minimize default_rng choice st pts distance_range n))
     = st
   \<and> fst (ransac_fit_circle_store gd minimize default_rng choice st pts distance_range n)
     = ransac_fit_circle gd minimize default_rng choice pts distance_range n"
  by (simp add: ransac_store_pure)

theorem ransac_fit_circle_deterministic_witness:
  "fst (ransac_fit_circle_store planar_gd start_minimizer counter_rng window_choice
          (snd (ransac_fit_circle_store planar_gd start_minimizer counter_rng window_choice
                  [7, 8] five_points 1 2))
          five_points 1 2)
     = Inr (Fin 2, Fin 2, Fin (8 / 3))
   \<and> fst (ransac_fit_circle_store planar_gd start_minimizer counter_rng window_choice
            [7, 8] five_points 1 2)
     = Inr (Fin 2, Fin 2, Fin (8 / 3))
   \<and> take 2 (snd (ransac_fit_circle_store planar_gd start_minimizer counter_rng window_choice
                    [7, 8] five_points 1 2))
     = [7, 8]"
proof -
  note d = ransac_fit_circle_deterministic [where gd = planar_gd and minimize = start_minimizer
          and default_rng = counter_rng and choice = window_choice
          and st = "[7, 8]" and st' = "[]"
          and pts = five_points and distance_range = 1 and n = 2]
  from d have one: "fst (ransac_fit_circle_store planar_gd start_minimizer counter_rng
            window_choice [7, 8] five_points 1 2)
      = ransac_fit_circle planar_gd start_minimizer counter_rng window_choice five_points 1 2"
    by blast
  from d have two: "fst (ransac_fit_circle_store planar_gd start_minimizer counter_rng
          window_choice
          (snd (ransac_fit_circle_store planar_gd start_minimizer counter_rng window_choice
                  [7, 8] five_points 1 2))
          five_points 1 2)
      = fst (ransac_fit_circle_store planar_gd start_minimizer counter_rng
            window_choice [7, 8] five_points 1 2)"
    by blast
  from d have "take (length [7, 8 :: nat])
        (snd (ransac_fit_circle_store planar_gd start_minimizer counter_rng window_choice
                    [7, 8] five_points 1 2))
      = [7, 8]"
    by blast
  then have three: "take 2
        (snd (ransac_fit_circle_store planar_gd start_minimizer counter_rng window_choice
                    [7, 8] five_points 1 2))
      = [7, 8]"
    by (simp add: numeral_2_eq_2)
  from one two three ransac_five_points show ?thesis by simp
qed

end
